theory Spec2Isabelle
  imports Complex_Main "HOL-Library.Word" "HOL-Library.Log_Nat"
begin

unbundle bit_operations_syntax

section \<open>Theremin synthesizer: shallow embedding of Theramin.cpp\<close>

text \<open>
  The synthesis engine of \<^verbatim>\<open>src/Theramin.cpp\<close>. A C++ \<^verbatim>\<open>float\<close> is modelled by a
  \<^typ>\<open>real\<close>: rounding, infinities and NaN are not modelled there, so a result about
  the per-sample path is a statement about the arithmetic the program writes down,
  evaluated exactly. The one place where the roundings decide a property is the
  smoothing update, which is modelled a second time in binary32 arithmetic
  (\<open>smooth_step_f32\<close>).
  \<^verbatim>\<open>uint32_t\<close> and \<^verbatim>\<open>UINT32\<close> are \<^typ>\<open>32 word\<close> (wrapping), \<^verbatim>\<open>size_t\<close> indices are
  \<^typ>\<open>nat\<close>, \<^verbatim>\<open>int\<close> is \<^typ>\<open>int\<close>. An access \<^verbatim>\<open>v[i]\<close> of a \<^verbatim>\<open>std::vector\<close> outside its
  size (undefined behaviour in C++) is the value \<open>Inl OutOfBounds\<close>.
\<close>

subsection \<open>Constants (lines 28-31)\<close>

definition kSampleRate :: real where
  "kSampleRate = 48000"

text \<open>The program's constant for one turn, with the digits of the source literal.\<close>

definition kTwoPi :: real where
  "kTwoPi = 6.28318530717958647692"

definition kMinHz :: real where
  "kMinHz = 100"

definition kMaxHz :: real where
  "kMaxHz = 2000"

subsection \<open>Data (lines 33-50)\<close>

record SynthParams =
  targetHz :: real
  targetGain :: real
  mode :: int
  mute :: bool
  vibratoDepth :: real

record SynthState =
  phaseA :: real
  phaseB :: real
  smoothHz :: real
  smoothGain :: real
  vibratoPhase :: real
  delayL :: real
  delayR :: real
  delayBufL :: "real list"
  delayBufR :: "real list"
  delayIndex :: nat

text \<open>The member initialisers of the two structs: the globals \<^verbatim>\<open>gParams\<close>, \<^verbatim>\<open>gSynth\<close>.\<close>

definition gParams :: SynthParams where
  "gParams = \<lparr>targetHz = 440, targetGain = 0, mode = 1, mute = False, vibratoDepth = 0\<rparr>"

definition gSynth :: SynthState where
  "gSynth = \<lparr>phaseA = 0, phaseB = 0, smoothHz = 440, smoothGain = 0, vibratoPhase = 0,
     delayL = 0, delayR = 0, delayBufL = [], delayBufR = [], delayIndex = 0\<rparr>"

datatype fault = OutOfBounds

subsection \<open>Wave shaping (lines 52-73)\<close>

definition fast_tanhf :: "real \<Rightarrow> real" where
  "fast_tanhf x = (let x2 = x * x in x * (27 + x2) / (27 + 9 * x2))"

definition soft_saw :: "real \<Rightarrow> real" where
  "soft_saw phase = (let s = (phase / kTwoPi) * 2 - 1 in fast_tanhf (0.8 * s))"

definition soft_tri :: "real \<Rightarrow> real" where
  "soft_tri phase = (let tri = 2 * \<bar>(phase / kTwoPi) - 0.5\<bar> - 1 in fast_tanhf (0.8 * tri))"

definition sine :: "real \<Rightarrow> real" where
  "sine phase = sin phase"

subsection \<open>Noise (lines 75-81)\<close>

text \<open>
  \<^verbatim>\<open>white_noise\<close> keeps its seed in a function-local \<^verbatim>\<open>static\<close>, starting at
  \<^verbatim>\<open>0x12345678\<close>. The model passes the seed in and returns the sample with the new seed.
\<close>

definition noise_seed0 :: "32 word" where
  "noise_seed0 = 0x12345678"

definition white_noise :: "32 word \<Rightarrow> real \<times> 32 word" where
  "white_noise seed =
     (let seed' = 1664525 * seed + 1013904223;
          u = real (unat (seed' AND 0x00FFFFFF)) / 16777216
      in (2 * u - 1, seed'))"

subsection \<open>Smoothing and control mapping (lines 84-102)\<close>

text \<open>
  \<open>smooth_step\<close> is the exact value of the expression of line 85; the per-sample path
  below is written with it. What the three binary32 operations of that expression
  compute, with their roundings, is \<open>smooth_step_f32\<close> further down.
\<close>

definition smooth_step :: "real \<Rightarrow> real \<Rightarrow> real \<Rightarrow> real" where
  "smooth_step current target coeff = current + coeff * (target - current)"

definition map_x_to_hz :: "int \<Rightarrow> int \<Rightarrow> real" where
  "map_x_to_hz x width =
     (if width \<le> 0 then 440
      else let nx = max 0 (min 1 (real_of_int x / real_of_int width));
               ratio = kMaxHz / kMinHz
           in kMinHz * (ratio powr nx))"

definition map_y_to_gain :: "int \<Rightarrow> int \<Rightarrow> real" where
  "map_y_to_gain y height =
     (if height \<le> 0 then 0
      else let ny = max 0 (min 1 (real_of_int y / real_of_int height))
           in 1 - ny)"

subsection \<open>Control input: the WM_MOUSEMOVE and WM_KEYDOWN cases of WndProc (lines 270-298)\<close>

text \<open>
  \<open>on_mousemove x y w h shift\<close> is the \<^verbatim>\<open>WM_MOUSEMOVE\<close> case: \<open>x\<close>, \<open>y\<close> are the mouse
  coordinates, \<open>w\<close>, \<open>h\<close> the client rectangle's width and height, \<open>shift\<close> the state
  of the shift key. It is the only code that stores a frequency or a gain target.
\<close>

definition on_mousemove :: "int \<Rightarrow> int \<Rightarrow> int \<Rightarrow> int \<Rightarrow> bool \<Rightarrow> SynthParams \<Rightarrow> SynthParams" where
  "on_mousemove x y w h shift p =
     (let hz = map_x_to_hz x w;
          gain = map_y_to_gain y h
      in p\<lparr>targetHz := hz, targetGain := gain, vibratoDepth := (if shift then 1 else 0)\<rparr>)"

datatype key = Key1 | Key2 | Key3 | Key4 | KeySpace | KeyOther

fun on_keydown :: "key \<Rightarrow> SynthParams \<Rightarrow> SynthParams" where
  "on_keydown Key1 p = p\<lparr>mode := 1\<rparr>"
| "on_keydown Key2 p = p\<lparr>mode := 2\<rparr>"
| "on_keydown Key3 p = p\<lparr>mode := 3\<rparr>"
| "on_keydown Key4 p = p\<lparr>mode := 4\<rparr>"
| "on_keydown KeySpace p = p\<lparr>mute := \<not> mute p\<rparr>"
| "on_keydown KeyOther p = p"

subsection \<open>The per-sample path of AudioThreadMain (lines 176-248)\<close>

definition hzSmoothCoeff :: real where
  "hzSmoothCoeff = 0.05"

definition gainSmoothCoeff :: real where
  "gainSmoothCoeff = 0.075"

text \<open>The statement \<^verbatim>\<open>if (p >= kTwoPi) p -= kTwoPi;\<close>, written three times in the source.\<close>

definition wrap_phase :: "real \<Rightarrow> real" where
  "wrap_phase p = (if p \<ge> kTwoPi then p - kTwoPi else p)"

text \<open>
  The locals of lines 185-195, each as a function of the time step \<open>dt\<close>, the targets
  read at this sample and the state before the sample.
\<close>

definition next_smoothHz :: "SynthParams \<Rightarrow> SynthState \<Rightarrow> real" where
  "next_smoothHz p st = smooth_step (smoothHz st) (targetHz p) hzSmoothCoeff"

definition next_smoothGain :: "SynthParams \<Rightarrow> SynthState \<Rightarrow> real" where
  "next_smoothGain p st = smooth_step (smoothGain st) (targetGain p) gainSmoothCoeff"

definition vibrato_inc :: "real \<Rightarrow> real" where
  "vibrato_inc dt = kTwoPi * 5.5 * dt"

definition next_vibratoPhase :: "real \<Rightarrow> SynthState \<Rightarrow> real" where
  "next_vibratoPhase dt st = wrap_phase (vibratoPhase st + vibrato_inc dt)"

definition vibrato :: "real \<Rightarrow> SynthParams \<Rightarrow> SynthState \<Rightarrow> real" where
  "vibrato dt p st =
     (let vibAmt = vibratoDepth p
      in if vibAmt > 0 then 0.01 * vibAmt * sin (next_vibratoPhase dt st) else 0)"

definition carrier_hz :: "real \<Rightarrow> SynthParams \<Rightarrow> SynthState \<Rightarrow> real" where
  "carrier_hz dt p st = next_smoothHz p st * (1 + vibrato dt p st)"

definition incA :: "real \<Rightarrow> SynthParams \<Rightarrow> SynthState \<Rightarrow> real" where
  "incA dt p st = kTwoPi * carrier_hz dt p st * dt"

definition incB :: "real \<Rightarrow> SynthParams \<Rightarrow> SynthState \<Rightarrow> real" where
  "incB dt p st = kTwoPi * (carrier_hz dt p st * 1.997) * dt"

text \<open>Lines 184-201: smoothing, vibrato phase and the two oscillator phases.\<close>

definition update_oscillators :: "real \<Rightarrow> SynthParams \<Rightarrow> SynthState \<Rightarrow> SynthState" where
  "update_oscillators dt p st =
     st\<lparr>smoothHz := next_smoothHz p st,
        smoothGain := next_smoothGain p st,
        vibratoPhase := next_vibratoPhase dt st,
        phaseA := wrap_phase (phaseA st + incA dt p st),
        phaseB := wrap_phase (phaseB st + incB dt p st)\<rparr>"

text \<open>
  Lines 203-227: the \<^verbatim>\<open>switch (mode)\<close>. The arguments are the mode, the two phases after
  their update, and the noise seed; the result is the sample and the seed afterwards.
\<close>

definition waveform :: "int \<Rightarrow> real \<Rightarrow> real \<Rightarrow> 32 word \<Rightarrow> real \<times> 32 word" where
  "waveform m pA pB seed =
     (let aSine = sine pA;
          bSine = sine pB
      in if m = 1 then (aSine, seed)
         else if m = 2 then
           (let ring = aSine * bSine in (0.70 * aSine + 0.45 * ring, seed))
         else if m = 3 then
           (case white_noise seed of (w, seed') \<Rightarrow>
              let n = 0.25 * w;
                  pre = 0.85 * aSine + n
              in (fast_tanhf pre, seed'))
         else if m = 4 then
           (let s = soft_saw pA;
                t = soft_tri pA
            in (0.6 * s + 0.4 * t, seed))
         else (aSine, seed))"

text \<open>Line 230: the gain applied to the sample.\<close>

definition applied_gain :: "SynthParams \<Rightarrow> SynthState \<Rightarrow> real" where
  "applied_gain p st = (if mute p then 0 else smoothGain st)"

text \<open>
  Lines 177-232: everything of one sample before the delay lines. The result is the state
  with its oscillator fields updated, the noise seed, and the dry pair.
\<close>

definition synth_dry ::
  "real \<Rightarrow> SynthParams \<Rightarrow> SynthState \<times> 32 word \<Rightarrow> SynthState \<times> 32 word \<times> real \<times> real" where
  "synth_dry dt p s =
     (case s of (st, seed) \<Rightarrow>
        let st1 = update_oscillators dt p st
        in case waveform (mode p) (phaseA st1) (phaseB st1) seed of (sample, seed1) \<Rightarrow>
             let gain = applied_gain p st1;
                 dryL = sample * gain;
                 dryR = sample * gain
             in (st1, seed1, dryL, dryR))"

text \<open>Lines 234-243: the two delay lines and the crossfeed.\<close>

definition decorrelate :: "SynthState \<Rightarrow> real \<Rightarrow> real \<Rightarrow> fault + (SynthState \<times> real \<times> real)" where
  "decorrelate st dryL dryR =
     (let di = delayIndex st
      in if di < length (delayBufL st) \<and> di < length (delayBufR st) then
           let dL = delayBufL st ! di;
               dR = delayBufR st ! di;
               bufL = (delayBufL st)[di := 0.85 * dL + 0.15 * dryL];
               bufR = (delayBufR st)[di := 0.85 * dR + 0.15 * dryR];
               outL = 0.85 * dryL + 0.15 * dR;
               outR = 0.85 * dryR + 0.15 * dL
           in Inr (st\<lparr>delayBufL := bufL, delayBufR := bufR,
                       delayIndex := (di + 1) mod length bufL\<rparr>, outL, outR)
         else Inl OutOfBounds)"

text \<open>One pass of the body of the \<^verbatim>\<open>for\<close> loop: the new state and seed, and the frame.\<close>

definition render_sample ::
  "real \<Rightarrow> SynthParams \<Rightarrow> SynthState \<times> 32 word
     \<Rightarrow> fault + ((SynthState \<times> 32 word) \<times> real \<times> real)" where
  "render_sample dt p s =
     (case synth_dry dt p s of (st1, seed1, dryL, dryR) \<Rightarrow>
        (case decorrelate st1 dryL dryR of
           Inl e \<Rightarrow> Inl e
         | Inr (st2, outL, outR) \<Rightarrow> Inr ((st2, seed1), outL, outR)))"

text \<open>
  The \<^verbatim>\<open>for\<close> loop of lines 176-248. \<open>ps i\<close> are the targets the atomics hold when frame
  \<open>i\<close> reads them; \<open>n\<close> frames remain. The frames written are returned in order (the
  interleaved store into the device's memory is not modelled further).
\<close>

fun render_frames ::
  "real \<Rightarrow> (nat \<Rightarrow> SynthParams) \<Rightarrow> nat \<Rightarrow> nat \<Rightarrow> SynthState \<times> 32 word
     \<Rightarrow> fault + ((SynthState \<times> 32 word) \<times> (real \<times> real) list)" where
  "render_frames dt ps i 0 s = Inr (s, [])"
| "render_frames dt ps i (Suc n) s =
     (case render_sample dt (ps i) s of
        Inl e \<Rightarrow> Inl e
      | Inr (s1, frame) \<Rightarrow>
          (case render_frames dt ps (Suc i) n s1 of
             Inl e \<Rightarrow> Inl e
           | Inr (s2, frames) \<Rightarrow> Inr (s2, frame # frames)))"

subsection \<open>The render loop of AudioThreadMain (lines 135-258)\<close>

text \<open>Lines 141-149: the time step and the delay lines, set up before the loop.\<close>

definition delaySamples :: "nat \<Rightarrow> nat" where
  "delaySamples nSamplesPerSec = nat \<lfloor>real nSamplesPerSec * 0.012\<rfloor>"

definition audio_thread_init :: "nat \<Rightarrow> SynthState \<Rightarrow> SynthState" where
  "audio_thread_init nSamplesPerSec st =
     st\<lparr>delayBufL := replicate (delaySamples nSamplesPerSec) 0,
        delayBufR := replicate (delaySamples nSamplesPerSec) 0,
        delayIndex := 0\<rparr>"

text \<open>
  What the device answers during one pass of the \<^verbatim>\<open>while\<close> loop: whether the wait was
  signalled, whether \<^verbatim>\<open>GetCurrentPadding\<close> failed and the padding it gave, whether
  \<^verbatim>\<open>GetBuffer\<close> failed or gave no memory, whether \<^verbatim>\<open>ReleaseBuffer\<close> failed.
\<close>

record DeviceReply =
  signaled :: bool
  paddingFailed :: bool
  padding :: "32 word"
  getBufferFailed :: bool
  releaseFailed :: bool

datatype loop_ctl = Continue | Break

definition render_iteration ::
  "32 word \<Rightarrow> real \<Rightarrow> DeviceReply \<Rightarrow> (nat \<Rightarrow> SynthParams) \<Rightarrow> SynthState \<times> 32 word
     \<Rightarrow> fault + (loop_ctl \<times> (SynthState \<times> 32 word) \<times> (real \<times> real) list)" where
  "render_iteration bufferFrames dt r ps s =
     (if \<not> signaled r then Inr (Continue, s, [])
      else if paddingFailed r then Inr (Break, s, [])
      else let framesToWrite = bufferFrames - padding r
           in if framesToWrite = 0 then Inr (Continue, s, [])
              else if getBufferFailed r then Inr (Break, s, [])
              else (case render_frames dt ps 0 (unat framesToWrite) s of
                      Inl e \<Rightarrow> Inl e
                    | Inr (s1, frames) \<Rightarrow>
                        if releaseFailed r then Inr (Break, s1, frames)
                        else Inr (Continue, s1, frames)))"

text \<open>
  The \<^verbatim>\<open>while (running.load())\<close> loop over a finite history of wake-ups. Each wake-up
  carries the value of the running flag read at the loop head, the device's replies and
  the targets seen by the frames of that pass. The loop is \<open>Running\<close> when the history
  ends with the thread still inside the loop, \<open>Exited\<close> when it left for \<^verbatim>\<open>done:\<close>.
\<close>

datatype loop_state = Running | Exited

fun audio_loop ::
  "32 word \<Rightarrow> real \<Rightarrow> (bool \<times> DeviceReply \<times> (nat \<Rightarrow> SynthParams)) list
     \<Rightarrow> SynthState \<times> 32 word \<Rightarrow> fault + (loop_state \<times> (SynthState \<times> 32 word))" where
  "audio_loop bufferFrames dt [] s = Inr (Running, s)"
| "audio_loop bufferFrames dt ((running, r, ps) # evs) s =
     (if \<not> running then Inr (Exited, s)
      else (case render_iteration bufferFrames dt r ps s of
              Inl e \<Rightarrow> Inl e
            | Inr (Continue, s1, frames) \<Rightarrow> audio_loop bufferFrames dt evs s1
            | Inr (Break, s1, frames) \<Rightarrow> Inr (Exited, s1)))"

subsection \<open>smooth_step in binary32 arithmetic (lines 84-86)\<close>

text \<open>
  The three operations of \<^verbatim>\<open>current + coeff * (target - current)\<close> on \<^verbatim>\<open>float\<close>, each
  rounding its exact result to the nearest binary32 value, ties to even: a 24-bit
  significand, the exponent range of binary32 with gradual underflow, no fused
  multiply-add and no wider intermediate precision. A finite binary32 value is the real
  number it denotes; \<open>None\<close> stands for a result that is not finite (an infinity or a
  NaN), and an operation on such an operand gives such a result.

  \<open>rne\<close> rounds a real to the nearest integer, ties to even. \<open>bexp x\<close> is the binary
  exponent of \<open>x \<noteq> 0\<close> (\<open>2 powi bexp x \<le> \<bar>x\<bar> < 2 powi (bexp x + 1)\<close>), \<open>ulp_exp x\<close> the
  exponent of the last place of the binary32 values next to \<open>x\<close>, \<open>rnd32\<close> the rounding
  with an unbounded exponent above, \<open>f32_round\<close> the rounding that overflows beyond
  \<open>FLT_MAX\<close>, and \<open>is_f32\<close> holds of the finite binary32 values.
\<close>

definition rne :: "real \<Rightarrow> int" where
  "rne y =
     (let f = \<lfloor>y\<rfloor>;
          r = y - real_of_int f
      in if r < 1 / 2 then f
         else if 1 / 2 < r then f + 1
         else if even f then f else f + 1)"

definition bexp :: "real \<Rightarrow> int" where
  "bexp x = (if 1 \<le> \<bar>x\<bar> then bitlen \<lfloor>\<bar>x\<bar>\<rfloor> - 1 else - bitlen (\<lceil>1 / \<bar>x\<bar>\<rceil> - 1))"

definition ulp_exp :: "real \<Rightarrow> int" where
  "ulp_exp x = max (bexp x) (- 126) - 23"

definition rnd32 :: "real \<Rightarrow> real" where
  "rnd32 x = (if x = 0 then 0 else real_of_int (rne (x / 2 powi ulp_exp x)) * 2 powi ulp_exp x)"

definition FLT_MAX :: real where
  "FLT_MAX = 340282346638528859811704183484516925440"

definition f32_round :: "real \<Rightarrow> real option" where
  "f32_round x = (let r = rnd32 x in if \<bar>r\<bar> \<le> FLT_MAX then Some r else None)"

definition is_f32 :: "real \<Rightarrow> bool" where
  "is_f32 x = (f32_round x = Some x)"

definition f32_add :: "real option \<Rightarrow> real option \<Rightarrow> real option" where
  "f32_add a b = (case (a, b) of (Some x, Some y) \<Rightarrow> f32_round (x + y) | _ \<Rightarrow> None)"

definition f32_sub :: "real option \<Rightarrow> real option \<Rightarrow> real option" where
  "f32_sub a b = (case (a, b) of (Some x, Some y) \<Rightarrow> f32_round (x - y) | _ \<Rightarrow> None)"

definition f32_mul :: "real option \<Rightarrow> real option \<Rightarrow> real option" where
  "f32_mul a b = (case (a, b) of (Some x, Some y) \<Rightarrow> f32_round (x * y) | _ \<Rightarrow> None)"

definition smooth_step_f32 :: "real option \<Rightarrow> real option \<Rightarrow> real option \<Rightarrow> real option" where
  "smooth_step_f32 current target coeff = f32_add current (f32_mul coeff (f32_sub target current))"

text \<open>
  The smoothed value after \<open>n\<close> samples during which the target stays the same: the
  assignment of line 185 (or 186) executed \<open>n\<close> times, in binary32.
\<close>

primrec smooth_run_f32 :: "real option \<Rightarrow> real option \<Rightarrow> real option \<Rightarrow> nat \<Rightarrow> real option" where
  "smooth_run_f32 current target coeff 0 = current"
| "smooth_run_f32 current target coeff (Suc n) =
     smooth_step_f32 (smooth_run_f32 current target coeff n) target coeff"

subsection \<open>Invariants of the render loop\<close>

definition phases_in_range :: "SynthState \<Rightarrow> bool" where
  "phases_in_range st =
     (0 \<le> phaseA st \<and> phaseA st < kTwoPi \<and>
      0 \<le> phaseB st \<and> phaseB st < kTwoPi \<and>
      0 \<le> vibratoPhase st \<and> vibratoPhase st < kTwoPi)"

definition osc_ok :: "SynthState \<Rightarrow> bool" where
  "osc_ok st = (phases_in_range st \<and> kMinHz \<le> smoothHz st \<and> smoothHz st \<le> kMaxHz)"

definition targets_valid :: "SynthParams \<Rightarrow> bool" where
  "targets_valid p =
     (kMinHz \<le> targetHz p \<and> targetHz p \<le> kMaxHz \<and>
      0 \<le> vibratoDepth p \<and> vibratoDepth p \<le> 1)"

definition delay_ok :: "SynthState \<Rightarrow> bool" where
  "delay_ok st =
     (length (delayBufL st) = length (delayBufR st) \<and> delayIndex st < length (delayBufL st))"

section \<open>Properties\<close>

subsection \<open>Saturation, noise and the waveforms\<close>

lemma fast_tanhf_abs_le: "\<bar>fast_tanhf x\<bar> \<le> \<bar>x\<bar>"
proof -
  have pos: "0 < 27 + 9 * (x * x)"
    using zero_le_square [of x] by linarith
  have le: "27 + x * x \<le> 27 + 9 * (x * x)"
    using zero_le_square [of x] by simp
  have nn: "0 \<le> 27 + x * x"
    using zero_le_square [of x] by simp
  have q: "(27 + x * x) / (27 + 9 * (x * x)) \<le> 1"
    using pos le by (simp only: pos_divide_le_eq mult_1)
  have q0: "0 \<le> (27 + x * x) / (27 + 9 * (x * x))"
    using pos nn by (intro divide_nonneg_pos)
  have "\<bar>fast_tanhf x\<bar> = \<bar>x\<bar> * ((27 + x * x) / (27 + 9 * (x * x)))"
    using q0 by (simp add: fast_tanhf_def Let_def abs_mult)
  also have "\<dots> \<le> \<bar>x\<bar> * 1"
    by (rule mult_left_mono [OF q]) simp
  finally show ?thesis by simp
qed

lemma white_noise_range:
  "- 1 \<le> fst (white_noise seed) \<and> fst (white_noise seed) < 1"
proof -
  define w :: "32 word" where "w = (1664525 * seed + 1013904223) AND 0x00FFFFFF"
  have "w \<le> 0x00FFFFFF"
    unfolding w_def by (rule word_and_le1)
  then have "unat w \<le> unat (0x00FFFFFF :: 32 word)"
    by (simp add: word_le_nat_alt)
  then have b: "unat w < 16777216" by simp
  have u0: "0 \<le> real (unat w) / 16777216"
    by (rule divide_nonneg_nonneg) (rule of_nat_0_le_iff, simp)
  have "real (unat w) < real 16777216"
    using b by (simp only: of_nat_less_iff)
  then have u1: "real (unat w) / 16777216 < 1"
    by (simp only: of_nat_numeral pos_divide_less_eq)
  have "fst (white_noise seed) = 2 * (real (unat w) / 16777216) - 1"
    by (simp add: white_noise_def Let_def w_def)
  then show ?thesis using u0 u1 by (simp; argo)
qed

lemma white_noise_seed: "snd (white_noise seed) = 1664525 * seed + 1013904223"
  by (simp add: white_noise_def Let_def)


lemma kTwoPi_pos: "0 < kTwoPi"
  by (simp add: kTwoPi_def)

lemma turn_fraction_bounds:
  assumes "0 \<le> p" and "p \<le> 8"
  shows "0 \<le> p / kTwoPi" and "p / kTwoPi \<le> 1.274"
proof -
  show "0 \<le> p / kTwoPi"
    using assms(1) kTwoPi_pos by (intro divide_nonneg_pos)
  have "p \<le> 1.274 * kTwoPi"
    using assms(2) by (simp add: kTwoPi_def)
  then show "p / kTwoPi \<le> 1.274"
    using kTwoPi_pos by (simp only: pos_divide_le_eq)
qed

lemma soft_saw_abs_le:
  assumes "0 \<le> p" and "p \<le> 8"
  shows "\<bar>soft_saw p\<bar> \<le> 1.24"
proof -
  define q where "q = p / kTwoPi"
  have q: "0 \<le> q" "q \<le> 1.274"
    unfolding q_def using turn_fraction_bounds [OF assms] by simp_all
  have "\<bar>soft_saw p\<bar> \<le> \<bar>0.8 * (q * 2 - 1)\<bar>"
    unfolding soft_saw_def Let_def q_def by (rule fast_tanhf_abs_le)
  also have "\<dots> \<le> 1.24"
    using q by (simp; argo)
  finally show ?thesis .
qed

lemma soft_tri_abs_le:
  assumes "0 \<le> p" and "p \<le> 8"
  shows "\<bar>soft_tri p\<bar> \<le> 0.8"
proof -
  define q where "q = p / kTwoPi"
  have q: "0 \<le> q" "q \<le> 1.274"
    unfolding q_def using turn_fraction_bounds [OF assms] by simp_all
  have "\<bar>soft_tri p\<bar> \<le> \<bar>0.8 * (2 * \<bar>q - 0.5\<bar> - 1)\<bar>"
    unfolding soft_tri_def Let_def q_def by (rule fast_tanhf_abs_le)
  also have "\<dots> \<le> 0.8"
    using q by (simp; argo)
  finally show ?thesis .
qed

lemma phase_le_8:
  assumes "p < kTwoPi \<or> p < 2 * pi"
  shows "p \<le> 8"
  using assms pi_less_4 by (auto simp: kTwoPi_def)

lemma sine_abs_le: "\<bar>sine p\<bar> \<le> 1"
  unfolding sine_def by (rule abs_sin_le_one)

lemma waveform_mode1: "waveform 1 pA pB seed = (sine pA, seed)"
  by (simp add: waveform_def Let_def)

lemma waveform_mode2:
  "waveform 2 pA pB seed = (0.70 * sine pA + 0.45 * (sine pA * sine pB), seed)"
  by (simp add: waveform_def Let_def)

lemma waveform_mode3:
  "waveform 3 pA pB seed =
     (fast_tanhf (0.85 * sine pA + 0.25 * fst (white_noise seed)), snd (white_noise seed))"
  by (simp add: waveform_def Let_def case_prod_beta)

lemma waveform_mode4:
  "waveform 4 pA pB seed = (0.6 * soft_saw pA + 0.4 * soft_tri pA, seed)"
  by (simp add: waveform_def Let_def)

lemma waveform_default:
  "m \<notin> {1, 2, 3, 4} \<Longrightarrow> waveform m pA pB seed = (sine pA, seed)"
  by (simp add: waveform_def Let_def)

lemma mode2_abs_le: "\<bar>0.70 * sine pA + 0.45 * (sine pA * sine pB)\<bar> \<le> 1.15"
proof -
  have a: "\<bar>sine pA\<bar> \<le> 1" and b: "\<bar>sine pB\<bar> \<le> 1"
    by (rule sine_abs_le)+
  have "\<bar>sine pA * sine pB\<bar> \<le> 1 * 1"
    unfolding abs_mult by (rule mult_mono [OF a b]) simp_all
  then have r: "\<bar>sine pA * sine pB\<bar> \<le> 1" by simp
  show ?thesis using a r by (simp; argo)
qed

lemma mode3_abs_le:
  "\<bar>fast_tanhf (0.85 * sine pA + 0.25 * fst (white_noise seed))\<bar> \<le> 1.1"
proof -
  have a: "\<bar>sine pA\<bar> \<le> 1" by (rule sine_abs_le)
  note w = white_noise_range [of seed]
  have "\<bar>fast_tanhf (0.85 * sine pA + 0.25 * fst (white_noise seed))\<bar>
          \<le> \<bar>0.85 * sine pA + 0.25 * fst (white_noise seed)\<bar>"
    by (rule fast_tanhf_abs_le)
  also have "\<dots> \<le> 1.1"
    using a w by (simp; argo)
  finally show ?thesis .
qed

lemma mode4_abs_le:
  assumes "0 \<le> p" and "p \<le> 8"
  shows "\<bar>0.6 * soft_saw p + 0.4 * soft_tri p\<bar> \<le> 1.064"
  using soft_saw_abs_le [OF assms] soft_tri_abs_le [OF assms]
  by (simp; argo)

text \<open>
  C1. For each of the modes 1, 2, 3 and 4 and carrier and modulator phases that are
  nonnegative and below one turn (below the program's constant \<open>kTwoPi\<close>, or below
  \<open>2 * pi\<close>), the sample the mode switch produces lies in \<open>[-1.2, 1.2]\<close>, whatever
  the noise seed; the noise sample of \<open>white_noise\<close> lies in \<open>[-1, 1)\<close>.
\<close>

theorem waveform_output_bounded:
  assumes m: "m \<in> {1, 2, 3, 4}"
    and pA: "0 \<le> pA" "pA < kTwoPi \<or> pA < 2 * pi"
    and pB: "0 \<le> pB" "pB < kTwoPi \<or> pB < 2 * pi"
  shows "- 1.2 \<le> fst (waveform m pA pB seed) \<and> fst (waveform m pA pB seed) \<le> 1.2
    \<and> - 1 \<le> fst (white_noise seed) \<and> fst (white_noise seed) < 1"
proof -
  have "\<bar>fst (waveform m pA pB seed)\<bar> \<le> 1.2"
  proof -
    consider "m = 1" | "m = 2" | "m = 3" | "m = 4" using m by auto
    then show ?thesis
    proof cases
      case 1
      then show ?thesis using sine_abs_le [of pA] by (simp add: waveform_mode1)
    next
      case 2
      then show ?thesis using mode2_abs_le [of pA pB] by (simp add: waveform_mode2)
    next
      case 3
      then show ?thesis using mode3_abs_le [of pA seed] by (simp add: waveform_mode3)
    next
      case 4
      then show ?thesis
        using mode4_abs_le [OF pA(1) phase_le_8 [OF pA(2)]] by (simp add: waveform_mode4)
    qed
  qed
  then show ?thesis using white_noise_range [of seed] by (simp; argo)
qed

theorem waveform_output_bounded_witness:
  "(4::int) \<in> {1, 2, 3, 4} \<and> (0::real) \<le> 1 \<and> (1 < kTwoPi \<or> 1 < 2 * pi)
    \<and> (0::real) \<le> 2 \<and> (2 < kTwoPi \<or> 2 < 2 * pi)
    \<and> - 1.2 \<le> fst (waveform 4 1 2 noise_seed0) \<and> fst (waveform 4 1 2 noise_seed0) \<le> 1.2"
proof -
  have a: "(1::real) < kTwoPi \<or> 1 < 2 * pi" by (simp add: kTwoPi_def)
  have b: "(2::real) < kTwoPi \<or> 2 < 2 * pi" by (simp add: kTwoPi_def)
  show ?thesis
    using waveform_output_bounded [of 4 1 2 noise_seed0, OF _ _ a _ b] a b by simp
qed

subsection \<open>Smoothing\<close>

lemma smooth_step_gap: "t - smooth_step c t k = (1 - k) * (t - c)"
  by (simp add: smooth_step_def algebra_simps)

lemma smooth_step_between:
  assumes "0 < k" and "k < 1"
  shows "min c t \<le> smooth_step c t k" and "smooth_step c t k \<le> max c t"
proof -
  have g: "t - smooth_step c t k = (1 - k) * (t - c)" by (rule smooth_step_gap)
  have d: "smooth_step c t k - c = k * (t - c)" by (simp add: smooth_step_def)
  show "min c t \<le> smooth_step c t k"
  proof (cases "c \<le> t")
    case True
    then have "0 \<le> k * (t - c)" using assms by simp
    then show ?thesis using d True by simp
  next
    case False
    then have "(1 - k) * (t - c) \<le> 0"
      using assms by (simp add: mult_le_0_iff)
    then show ?thesis using g False by simp
  qed
  show "smooth_step c t k \<le> max c t"
  proof (cases "c \<le> t")
    case True
    then have "0 \<le> (1 - k) * (t - c)" using assms by simp
    then show ?thesis using g True by simp
  next
    case False
    then have "k * (t - c) \<le> 0"
      using assms by (simp add: mult_le_0_iff)
    then show ?thesis using d False by simp
  qed
qed

subsection \<open>Rounding to binary32\<close>

lemma rne_bounds: "real_of_int (rne y) \<le> y + 1 / 2" "y - 1 / 2 \<le> real_of_int (rne y)"
  unfolding rne_def Let_def by (auto; linarith)+

lemma rne_of_int [simp]: "rne (real_of_int n) = n"
  by (simp add: rne_def)

lemma rne_floor_le: "\<lfloor>y\<rfloor> \<le> rne y" "rne y \<le> \<lfloor>y\<rfloor> + 1"
  unfolding rne_def Let_def by auto

lemma rne_mono:
  assumes "x \<le> y"
  shows "rne x \<le> rne y"
proof (cases "\<lfloor>x\<rfloor> = \<lfloor>y\<rfloor>")
  case True
  have "x - real_of_int \<lfloor>y\<rfloor> \<le> y - real_of_int \<lfloor>y\<rfloor>" using assms by simp
  then show ?thesis
    unfolding rne_def Let_def True by auto
next
  case False
  have "\<lfloor>x\<rfloor> \<le> \<lfloor>y\<rfloor>" using assms by (rule floor_mono)
  then have "\<lfloor>x\<rfloor> + 1 \<le> \<lfloor>y\<rfloor>" using False by simp
  then show ?thesis
    using rne_floor_le(2) [of x] rne_floor_le(1) [of y] by linarith
qed

lemma rne_minus: "rne (- y) = - rne y"
proof (cases "y \<in> \<int>")
  case True
  then obtain n where "y = real_of_int n" by (auto elim: Ints_cases)
  then have "rne (- y) = rne (real_of_int (- n))" by simp
  also have "\<dots> = - n" by (rule rne_of_int)
  finally show ?thesis using \<open>y = real_of_int n\<close> by simp
next
  case False
  then have "y \<noteq> real_of_int \<lfloor>y\<rfloor>"
    by (metis Ints_of_int)
  then have c: "\<lceil>y\<rceil> = \<lfloor>y\<rfloor> + 1"
    by (simp add: ceiling_altdef)
  have f: "\<lfloor>- y\<rfloor> = - \<lfloor>y\<rfloor> - 1"
    using c by (simp add: floor_minus)
  show ?thesis
    unfolding rne_def Let_def f by auto
qed

lemma rne_nonneg: "0 \<le> y \<Longrightarrow> 0 \<le> rne y"
  using rne_mono [of 0 y] rne_of_int [of 0] by simp

lemma rne_le_double:
  assumes "0 \<le> y"
  shows "real_of_int (rne y) \<le> 2 * y"
proof (cases "1 / 2 < y")
  case True
  then show ?thesis using rne_bounds(1) [of y] by linarith
next
  case False
  then have f: "\<lfloor>y\<rfloor> = 0" using assms by (simp add: floor_eq_iff)
  have "rne y = 0"
    unfolding rne_def Let_def f using False by auto
  then show ?thesis using assms by simp
qed


subsection \<open>Binary exponent\<close>

lemma power_int_2_pos [simp]: "0 < (2::real) powi e"
  by simp

lemma power_int_2_mono: "a \<le> b \<Longrightarrow> (2::real) powi a \<le> 2 powi b"
  by (rule power_int_increasing) simp_all

lemma power_int_2_strict_mono: "a < b \<Longrightarrow> (2::real) powi a < 2 powi b"
  by (rule power_int_strict_increasing) simp_all

lemma power_int_2_less_imp: "(2::real) powi a < 2 powi b \<Longrightarrow> a < b"
  using power_int_2_mono [of b a] by (cases "a < b") auto

lemma power_int_2_add: "(2::real) powi (a + b) = 2 powi a * 2 powi b"
  by (rule power_int_add) simp

lemma power_int_2_Suc: "(2::real) powi (a + 1) = 2 * 2 powi a"
  by (simp add: power_int_2_add)

lemma bexp_bounds:
  assumes "x \<noteq> 0"
  shows "2 powi bexp x \<le> \<bar>x\<bar>" and "\<bar>x\<bar> < 2 powi (bexp x + 1)"
proof -
  have "2 powi bexp x \<le> \<bar>x\<bar> \<and> \<bar>x\<bar> < 2 powi (bexp x + 1)"
  proof (cases "1 \<le> \<bar>x\<bar>")
    case True
    define m where "m = \<lfloor>\<bar>x\<bar>\<rfloor>"
    have m: "0 < m" unfolding m_def using True by simp
    have b1: "1 \<le> bitlen m" using m bitlen_eq_zero_iff [of m] bitlen_nonneg [of m]
      by (cases "bitlen m = 0") auto
    have e: "bexp x = bitlen m - 1" using True by (simp add: bexp_def m_def)
    note bb = bitlen_bounds [OF m]
    have "(2::real) powi (bitlen m - 1) = 2 ^ nat (bitlen m - 1)"
      using b1 by (simp add: power_int_def)
    also have "\<dots> = real_of_int (2 ^ nat (bitlen m - 1))" by simp
    also have "\<dots> \<le> real_of_int m" using bb by (simp only: of_int_le_iff)
    also have "\<dots> \<le> \<bar>x\<bar>" unfolding m_def by simp
    finally have lo: "2 powi bexp x \<le> \<bar>x\<bar>" by (simp add: e)
    have "m + 1 \<le> 2 ^ nat (bitlen m)" using bb by simp
    then have "real_of_int (m + 1) \<le> real_of_int (2 ^ nat (bitlen m))"
      by (simp only: of_int_le_iff)
    moreover have "\<bar>x\<bar> < real_of_int (m + 1)" unfolding m_def by linarith
    moreover have "(2::real) powi (bitlen m) = 2 ^ nat (bitlen m)"
      using b1 by (simp add: power_int_def)
    ultimately have "\<bar>x\<bar> < 2 powi (bexp x + 1)" by (simp add: e)
    with lo show ?thesis by simp
  next
    case False
    define y where "y = 1 / \<bar>x\<bar>"
    have ax: "0 < \<bar>x\<bar>" "\<bar>x\<bar> < 1" using assms False by simp_all
    have y1: "1 < y" unfolding y_def using ax by simp
    define m where "m = \<lceil>y\<rceil> - 1"
    have "2 \<le> \<lceil>y\<rceil>" using y1 by linarith
    then have m: "0 < m" unfolding m_def by simp
    have my: "real_of_int m < y" "y \<le> real_of_int m + 1"
      unfolding m_def by linarith+
    have b1: "1 \<le> bitlen m" using m bitlen_eq_zero_iff [of m] bitlen_nonneg [of m]
      by (cases "bitlen m = 0") auto
    have e: "bexp x = - bitlen m" using False by (simp add: bexp_def m_def y_def)
    note bb = bitlen_bounds [OF m]
    have p1: "(2::real) powi (bitlen m) = real_of_int (2 ^ nat (bitlen m))"
      using b1 by (simp add: power_int_def)
    have p2: "(2::real) powi (bitlen m - 1) = real_of_int (2 ^ nat (bitlen m - 1))"
      using b1 by (simp add: power_int_def)
    have "m + 1 \<le> 2 ^ nat (bitlen m)" using bb by simp
    then have "real_of_int (m + 1) \<le> real_of_int (2 ^ nat (bitlen m))"
      by (simp only: of_int_le_iff)
    then have yu: "y \<le> 2 powi (bitlen m)" using my(2) unfolding p1 by simp
    have "real_of_int (2 ^ nat (bitlen m - 1)) \<le> real_of_int m"
      using bb by (simp only: of_int_le_iff)
    then have yl: "2 powi (bitlen m - 1) < y" using my(1) unfolding p2 by linarith
    have x: "\<bar>x\<bar> = 1 / y" unfolding y_def by simp
    have y0: "0 < y" using y1 by simp
    have "1 / 2 powi (bitlen m) \<le> 1 / y"
      using yu y0 by (intro divide_left_mono) simp_all
    then have lo: "2 powi bexp x \<le> \<bar>x\<bar>"
      by (simp add: e x power_int_minus_divide)
    have "1 / y < 1 / 2 powi (bitlen m - 1)"
      using yl y0 by (intro divide_strict_left_mono) simp_all
    moreover have "bexp x + 1 = - (bitlen m - 1)" by (simp add: e)
    ultimately have "\<bar>x\<bar> < 2 powi (bexp x + 1)"
      by (simp only: x power_int_minus_divide)
    with lo show ?thesis by simp
  qed
  then show "2 powi bexp x \<le> \<bar>x\<bar>" and "\<bar>x\<bar> < 2 powi (bexp x + 1)" by simp_all
qed

lemma bexp_unique:
  assumes "2 powi k \<le> \<bar>x\<bar>" and "\<bar>x\<bar> < 2 powi (k + 1)"
  shows "bexp x = k"
proof -
  have "0 < \<bar>x\<bar>" using assms(1) power_int_2_pos [of k] by linarith
  then have x: "x \<noteq> 0" by auto
  note b = bexp_bounds [OF x]
  have "2 powi k < (2::real) powi (bexp x + 1)" using assms(1) b(2) by linarith
  then have "k < bexp x + 1" by (rule power_int_2_less_imp)
  moreover have "2 powi bexp x < (2::real) powi (k + 1)" using assms(2) b(1) by linarith
  then have "bexp x < k + 1" by (rule power_int_2_less_imp)
  ultimately show ?thesis by simp
qed

lemma bexp_mono:
  assumes "x \<noteq> 0" and "\<bar>x\<bar> \<le> \<bar>y\<bar>"
  shows "bexp x \<le> bexp y"
proof -
  have y: "y \<noteq> 0" using assms by auto
  have "2 powi bexp x < (2::real) powi (bexp y + 1)"
    using bexp_bounds(1) [OF assms(1)] bexp_bounds(2) [OF y] assms(2) by linarith
  then have "bexp x < bexp y + 1" by (rule power_int_2_less_imp)
  then show ?thesis by simp
qed

lemma bexp_minus [simp]: "bexp (- x) = bexp x"
  by (simp add: bexp_def)


subsection \<open>Monotonicity and fixed points of the rounding\<close>

lemma rnd32_zero [simp]: "rnd32 0 = 0"
  by (simp add: rnd32_def)

lemma ulp_exp_minus [simp]: "ulp_exp (- x) = ulp_exp x"
  by (simp add: ulp_exp_def)

lemma rnd32_minus: "rnd32 (- x) = - rnd32 x"
  by (simp add: rnd32_def rne_minus)

lemma rnd32_nonneg:
  assumes "0 \<le> x"
  shows "0 \<le> rnd32 x"
proof (cases "x = 0")
  case True
  then show ?thesis by simp
next
  case False
  have "0 \<le> x / 2 powi ulp_exp x" using assms by simp
  then have "0 \<le> rne (x / 2 powi ulp_exp x)" by (rule rne_nonneg)
  then show ?thesis using False by (simp add: rnd32_def)
qed

lemma rnd32_le_double:
  assumes "0 \<le> x"
  shows "rnd32 x \<le> 2 * x"
proof (cases "x = 0")
  case True
  then show ?thesis by simp
next
  case False
  let ?u = "(2::real) powi ulp_exp x"
  have "0 \<le> x / ?u" using assms by simp
  then have "real_of_int (rne (x / ?u)) \<le> 2 * (x / ?u)" by (rule rne_le_double)
  then have "real_of_int (rne (x / ?u)) * ?u \<le> 2 * (x / ?u) * ?u"
    by (intro mult_right_mono) simp_all
  then show ?thesis using False by (simp add: rnd32_def)
qed

lemma rnd32_error:
  "\<bar>rnd32 x - x\<bar> \<le> 2 powi ulp_exp x / 2"
proof (cases "x = 0")
  case True
  then show ?thesis by simp
next
  case False
  let ?u = "(2::real) powi ulp_exp x"
  have u: "0 < ?u" by simp
  have "\<bar>real_of_int (rne (x / ?u)) - x / ?u\<bar> \<le> 1 / 2"
    using rne_bounds [of "x / ?u"] by linarith
  then have "\<bar>real_of_int (rne (x / ?u)) - x / ?u\<bar> * ?u \<le> 1 / 2 * ?u"
    by (intro mult_right_mono) simp_all
  moreover have "\<bar>real_of_int (rne (x / ?u)) - x / ?u\<bar> * ?u
      = \<bar>real_of_int (rne (x / ?u)) * ?u - x\<bar>"
  proof -
    have "\<bar>real_of_int (rne (x / ?u)) - x / ?u\<bar> * ?u
        = \<bar>(real_of_int (rne (x / ?u)) - x / ?u) * ?u\<bar>"
      using u by (simp add: abs_mult)
    also have "(real_of_int (rne (x / ?u)) - x / ?u) * ?u
        = real_of_int (rne (x / ?u)) * ?u - x"
      using u by (simp add: algebra_simps)
    finally show ?thesis .
  qed
  ultimately show ?thesis using False by (simp add: rnd32_def)
qed

lemma ulp_exp_mono:
  assumes "x \<noteq> 0" and "\<bar>x\<bar> \<le> \<bar>y\<bar>"
  shows "ulp_exp x \<le> ulp_exp y"
  using bexp_mono [OF assms] by (simp add: ulp_exp_def)

lemma scaled_less:
  assumes "0 < x"
  shows "x / 2 powi ulp_exp x < 2 ^ 24"
proof -
  have "bexp x + 1 \<le> ulp_exp x + 24" by (simp add: ulp_exp_def)
  then have "(2::real) powi (bexp x + 1) \<le> 2 powi (ulp_exp x + 24)"
    by (rule power_int_2_mono)
  then have "x < 2 powi (ulp_exp x + 24)"
    using bexp_bounds(2) [of x] assms by simp
  then have "x < 2 ^ 24 * 2 powi ulp_exp x"
    by (simp add: power_int_2_add mult.commute)
  then show ?thesis by (simp add: pos_divide_less_eq)
qed

lemma scaled_ge:
  assumes "0 < x" and "- 126 \<le> bexp x"
  shows "2 ^ 23 \<le> x / 2 powi ulp_exp x"
proof -
  have "bexp x = ulp_exp x + 23" using assms(2) by (simp add: ulp_exp_def)
  then have "2 powi (ulp_exp x + 23) \<le> x"
    using bexp_bounds(1) [of x] assms(1) by simp
  then have "2 ^ 23 * 2 powi ulp_exp x \<le> x"
    by (simp add: power_int_2_add mult.commute)
  then show ?thesis by (simp add: pos_le_divide_eq)
qed

lemma rnd32_upper:
  assumes "0 < x"
  shows "rnd32 x \<le> 2 powi (ulp_exp x + 24)"
proof -
  let ?u = "(2::real) powi ulp_exp x"
  have "rne (x / ?u) \<le> rne (real_of_int (2 ^ 24))"
    using scaled_less [OF assms] by (intro rne_mono) simp
  then have "rne (x / ?u) \<le> 2 ^ 24" by (simp only: rne_of_int)
  then have "real_of_int (rne (x / ?u)) \<le> real_of_int (2 ^ 24)"
    by (simp only: of_int_le_iff)
  then have "real_of_int (rne (x / ?u)) * ?u \<le> 2 ^ 24 * ?u"
    by (intro mult_right_mono) simp_all
  then show ?thesis using assms by (simp add: rnd32_def power_int_2_add mult.commute)
qed

lemma rnd32_lower:
  assumes "0 < x" and "- 126 \<le> bexp x"
  shows "2 powi bexp x \<le> rnd32 x"
proof -
  let ?u = "(2::real) powi ulp_exp x"
  have e: "bexp x = ulp_exp x + 23" using assms(2) by (simp add: ulp_exp_def)
  have "rne (real_of_int (2 ^ 23)) \<le> rne (x / ?u)"
    using scaled_ge [OF assms] by (intro rne_mono) simp
  then have "2 ^ 23 \<le> rne (x / ?u)" by (simp only: rne_of_int)
  then have "real_of_int (2 ^ 23) \<le> real_of_int (rne (x / ?u))"
    by (simp only: of_int_le_iff)
  then have "2 ^ 23 * ?u \<le> real_of_int (rne (x / ?u)) * ?u"
    by (intro mult_right_mono) simp_all
  then show ?thesis using assms(1) by (simp add: rnd32_def e power_int_2_add mult.commute)
qed

lemma rnd32_mono_pos:
  assumes "0 < x" and "x \<le> y"
  shows "rnd32 x \<le> rnd32 y"
proof -
  have y: "0 < y" using assms by simp
  have le: "ulp_exp x \<le> ulp_exp y"
    using assms by (intro ulp_exp_mono) simp_all
  show ?thesis
  proof (cases "ulp_exp x = ulp_exp y")
    case True
    let ?u = "(2::real) powi ulp_exp y"
    have "x / ?u \<le> y / ?u" using assms(2) by (simp add: divide_right_mono)
    then have "rne (x / ?u) \<le> rne (y / ?u)" by (rule rne_mono)
    then have "real_of_int (rne (x / ?u)) \<le> real_of_int (rne (y / ?u))"
      by (simp only: of_int_le_iff)
    then have "real_of_int (rne (x / ?u)) * ?u \<le> real_of_int (rne (y / ?u)) * ?u"
      by (intro mult_right_mono) simp_all
    then show ?thesis using assms(1) y by (simp add: rnd32_def True)
  next
    case False
    then have lt: "ulp_exp x < ulp_exp y" using le by simp
    then have ey: "- 126 \<le> bexp y" "ulp_exp x + 24 \<le> bexp y"
      by (simp_all add: ulp_exp_def max_def split: if_splits)
    have "rnd32 x \<le> 2 powi (ulp_exp x + 24)" by (rule rnd32_upper [OF assms(1)])
    also have "\<dots> \<le> 2 powi bexp y" using ey(2) by (rule power_int_2_mono)
    also have "\<dots> \<le> rnd32 y" by (rule rnd32_lower [OF y ey(1)])
    finally show ?thesis .
  qed
qed

lemma rnd32_mono:
  assumes "x \<le> y"
  shows "rnd32 x \<le> rnd32 y"
proof -
  consider "0 < x" | "x \<le> 0" "0 \<le> y" | "y < 0" by linarith
  then show ?thesis
  proof cases
    case 1
    then show ?thesis using assms by (rule rnd32_mono_pos)
  next
    case 2
    have "0 \<le> rnd32 (- x)" using 2(1) by (intro rnd32_nonneg) simp
    then have "rnd32 x \<le> 0" by (simp add: rnd32_minus)
    moreover have "0 \<le> rnd32 y" using 2(2) by (rule rnd32_nonneg)
    ultimately show ?thesis by simp
  next
    case 3
    have "rnd32 (- y) \<le> rnd32 (- x)"
      using 3 assms by (intro rnd32_mono_pos) simp_all
    then show ?thesis by (simp add: rnd32_minus)
  qed
qed


lemma quotient_of_product: "0 < u \<Longrightarrow> r = a * u \<Longrightarrow> r / u = (a::real)"
  by simp

lemma power_int_2_split:
  assumes "u \<le> e"
  shows "(2::real) powi e = real_of_int (2 ^ nat (e - u)) * 2 powi u"
proof -
  have "(2::real) powi e = 2 powi ((e - u) + u)" by simp
  also have "\<dots> = 2 powi (e - u) * 2 powi u" by (rule power_int_2_add)
  also have "(2::real) powi (e - u) = real_of_int (2 ^ nat (e - u))"
    using assms by (simp add: power_int_def)
  finally show ?thesis .
qed

lemma rnd32_grid_fixed:
  assumes "r = real_of_int n * 2 powi e" and "ulp_exp r \<le> e"
  shows "rnd32 r = r"
proof (cases "r = 0")
  case True
  then show ?thesis by simp
next
  case False
  define u where "u = ulp_exp r"
  define m where "m = n * 2 ^ nat (e - u)"
  have "r = real_of_int n * (real_of_int (2 ^ nat (e - u)) * 2 powi u)"
    using assms(1) power_int_2_split [of u e] assms(2) by (simp only: u_def)
  then have r: "r = real_of_int m * 2 powi u"
    by (simp only: m_def of_int_mult mult.assoc)
  have "r / 2 powi u = real_of_int m"
    by (rule quotient_of_product [OF _ r]) simp
  then have "rne (r / 2 powi u) = m"
    by (simp only: rne_of_int)
  then have "rnd32 r = real_of_int m * 2 powi u"
    using False by (simp add: rnd32_def u_def)
  then show ?thesis using r by simp
qed

lemma rnd32_idem_pos:
  assumes "0 < x"
  shows "rnd32 (rnd32 x) = rnd32 x"
proof -
  let ?u = "ulp_exp x"
  define n where "n = rne (x / 2 powi ?u)"
  have r: "rnd32 x = real_of_int n * 2 powi ?u"
    using assms by (simp add: rnd32_def n_def)
  have u: "- 126 \<le> ?u + 23" by (simp add: ulp_exp_def)
  have n0: "0 \<le> n" unfolding n_def using assms by (intro rne_nonneg) simp
  have "n \<le> rne (real_of_int (2 ^ 24))"
    unfolding n_def using scaled_less [OF assms] by (intro rne_mono) simp
  then have n1: "n \<le> 2 ^ 24" by (simp only: rne_of_int)
  show ?thesis
  proof (cases "n = 2 ^ 24")
    case True
    have v: "rnd32 x = real_of_int 1 * 2 powi (?u + 24)"
      by (simp add: r True power_int_2_add mult.commute)
    have "bexp (rnd32 x) = ?u + 24"
    proof (rule bexp_unique)
      show "2 powi (?u + 24) \<le> \<bar>rnd32 x\<bar>" by (simp add: v)
      have "(2::real) powi (?u + 24) < 2 powi (?u + 24 + 1)"
        by (rule power_int_2_strict_mono) simp
      then show "\<bar>rnd32 x\<bar> < 2 powi (?u + 24 + 1)" by (simp add: v)
    qed
    then have "ulp_exp (rnd32 x) \<le> ?u + 24"
      using u by (simp add: ulp_exp_def [of "rnd32 x"])
    then show ?thesis by (rule rnd32_grid_fixed [OF v])
  next
    case False
    show ?thesis
    proof (cases "n = 0")
      case True
      then show ?thesis by (simp add: r)
    next
      case nz: False
      have pos: "0 < rnd32 x" using n0 nz by (simp add: r)
      have "n + 1 \<le> 2 ^ 24" using n1 False by simp
      then have "n < 2 ^ 24" by simp
      then have "real_of_int n < real_of_int (2 ^ 24)"
        by (simp only: of_int_less_iff)
      then have "real_of_int n * 2 powi ?u < 2 ^ 24 * 2 powi ?u"
        by (intro mult_strict_right_mono) simp_all
      then have lt: "rnd32 x < 2 powi (?u + 24)"
        by (simp add: r power_int_2_add mult.commute)
      have "2 powi bexp (rnd32 x) \<le> \<bar>rnd32 x\<bar>"
        using pos by (intro bexp_bounds) simp
      then have "(2::real) powi bexp (rnd32 x) < 2 powi (?u + 24)"
        using lt pos by simp
      then have "bexp (rnd32 x) < ?u + 24" by (rule power_int_2_less_imp)
      then have "ulp_exp (rnd32 x) \<le> ?u"
        using u by (simp add: ulp_exp_def [of "rnd32 x"])
      then show ?thesis by (rule rnd32_grid_fixed [OF r])
    qed
  qed
qed

lemma rnd32_idem: "rnd32 (rnd32 x) = rnd32 x"
proof -
  consider "0 < x" | "x = 0" | "x < 0" by linarith
  then show ?thesis
  proof cases
    case 1
    then show ?thesis by (rule rnd32_idem_pos)
  next
    case 2
    then show ?thesis by simp
  next
    case 3
    then have "rnd32 (rnd32 (- x)) = rnd32 (- x)" by (intro rnd32_idem_pos) simp
    then show ?thesis by (simp add: rnd32_minus)
  qed
qed

lemma f32_multiple_of_min:
  assumes "rnd32 c = c"
  shows "\<exists>N::int. c = real_of_int N * 2 powi (- 149)"
proof (cases "c = 0")
  case True
  then have "c = real_of_int 0 * 2 powi (- 149)" by simp
  then show ?thesis by blast
next
  case False
  define u where "u = ulp_exp c"
  define m where "m = rne (c / 2 powi u)"
  have u: "- 149 \<le> u" by (simp add: u_def ulp_exp_def)
  have "c = real_of_int m * 2 powi u"
    using assms False by (simp add: rnd32_def u_def m_def)
  then have "c = real_of_int m * (real_of_int (2 ^ nat (u - (- 149))) * 2 powi (- 149))"
    using power_int_2_split [OF u] by simp
  then have "c = real_of_int (m * 2 ^ nat (u - (- 149))) * 2 powi (- 149)"
    by (simp only: of_int_mult mult.assoc)
  then show ?thesis by blast
qed

lemma rnd32_small_exact:
  assumes "x = real_of_int N * 2 powi (- 149)" and "\<bar>x\<bar> < 2 powi (- 126)"
  shows "rnd32 x = x"
proof (cases "x = 0")
  case True
  then show ?thesis by simp
next
  case False
  have "(2::real) powi bexp x < 2 powi (- 126)"
    using bexp_bounds(1) [OF False] assms(2) by linarith
  then have "bexp x < - 126" by (rule power_int_2_less_imp)
  then have "ulp_exp x \<le> - 149" by (simp add: ulp_exp_def)
  then show ?thesis by (rule rnd32_grid_fixed [OF assms(1)])
qed

lemma f32_below_one:
  assumes "rnd32 k = k" and "0 < k" and "k < 1"
  shows "k \<le> 1 - 2 powi (- 24)"
proof (cases "k < 1 / 2")
  case True
  have "(2::real) powi (- 24) \<le> 2 powi (- 1)" by (rule power_int_2_mono) simp
  then show ?thesis using True by (simp add: power_int_minus_divide)
next
  case False
  have "bexp k = - 1"
    using False assms by (intro bexp_unique) (simp_all add: power_int_minus_divide)
  then have u: "ulp_exp k = - 24" by (simp add: ulp_exp_def)
  define n where "n = rne (k / 2 powi (- 24))"
  have kn: "k = real_of_int n * 2 powi (- 24)"
    using assms(1,2) by (simp add: rnd32_def u n_def)
  have "real_of_int n * 2 powi (- 24) < 1" using assms(3) kn by simp
  then have "real_of_int n < 2 ^ 24"
    by (simp add: power_int_minus_divide pos_divide_less_eq)
  then have "real_of_int n < real_of_int (2 ^ 24)" by simp
  then have "n < 2 ^ 24" by (simp only: of_int_less_iff)
  then have "n \<le> 2 ^ 24 - 1" by simp
  then have "real_of_int n \<le> real_of_int (2 ^ 24 - 1)" by (simp only: of_int_le_iff)
  then have "real_of_int n * 2 powi (- 24) \<le> real_of_int (2 ^ 24 - 1) * 2 powi (- 24)"
    by (intro mult_right_mono) simp_all
  then show ?thesis
    unfolding kn [symmetric] by (simp add: power_int_minus_divide)
qed


subsection \<open>The smoothing step in binary32\<close>

lemma rounded_increment_le:
  assumes c: "rnd32 c = c" and t: "rnd32 t = t"
    and k: "rnd32 k = k" "0 < k" "k < 1"
    and ct: "c \<le> t"
  shows "rnd32 (k * rnd32 (t - c)) \<le> t - c"
proof -
  define x where "x = t - c"
  define d where "d = rnd32 x"
  define p where "p = rnd32 (k * d)"
  have x0: "0 \<le> x" using ct by (simp add: x_def)
  have d0: "0 \<le> d" unfolding d_def using x0 by (rule rnd32_nonneg)
  have dd: "rnd32 d = d" unfolding d_def by (rule rnd32_idem)
  have pp: "rnd32 p = p" unfolding p_def by (rule rnd32_idem)
  have "k * d \<le> 1 * d" using k(3) d0 by (intro mult_right_mono) simp_all
  then have "rnd32 (k * d) \<le> rnd32 d" by (intro rnd32_mono) simp
  then have pd: "p \<le> d" by (simp add: p_def dd)
  have "p \<le> x"
  proof (rule ccontr)
    assume "\<not> p \<le> x"
    then have xp: "x < p" by simp
    then have "rnd32 x \<le> rnd32 p" by (intro rnd32_mono) simp
    then have "d \<le> p" by (simp add: d_def pp)
    then have eq: "p = d" using pd by simp
    have xd: "x < d" using xp eq by simp
    have dpos: "0 < d" using xd x0 by simp
    define y where "y = k * d"
    have ypos: "0 < y" unfolding y_def using k(2) dpos by simp
    have yd: "y < d" unfolding y_def using k(3) dpos by simp
    have ry: "rnd32 y = d" using eq by (simp add: p_def y_def)
    have "\<bar>rnd32 y - y\<bar> \<le> 2 powi ulp_exp y / 2" by (rule rnd32_error)
    moreover have "d - y \<le> \<bar>rnd32 y - y\<bar>" unfolding ry by (rule abs_ge_self)
    ultimately have e1: "d - y \<le> 2 powi ulp_exp y / 2" by linarith
    have "k \<le> 1 - 2 powi (- 24)" by (rule f32_below_one [OF k])
    then have "k * d \<le> (1 - 2 powi (- 24)) * d"
      using d0 by (intro mult_right_mono) simp_all
    then have e2: "d * 2 powi (- 24) \<le> d - y"
      by (simp add: y_def algebra_simps)
    have "d * 2 powi (- 24) \<le> 2 powi ulp_exp y / 2" using e1 e2 by linarith
    then have "d * 2 powi (- 24) * 2 powi 24 \<le> 2 powi ulp_exp y / 2 * 2 powi 24"
      by (intro mult_right_mono) simp_all
    moreover have "d * 2 powi (- 24) * 2 powi 24 = d"
      by (simp add: power_int_minus_divide)
    moreover have "2 powi ulp_exp y / 2 * 2 powi 24 = (2::real) powi (ulp_exp y + 23)"
      by (simp add: power_int_2_add)
    ultimately have e3: "d \<le> 2 powi (ulp_exp y + 23)" by simp
    show False
    proof (cases "- 126 \<le> bexp y")
      case True
      then have "ulp_exp y + 23 = bexp y" by (simp add: ulp_exp_def)
      then have "d \<le> 2 powi bexp y" using e3 by simp
      moreover have "2 powi bexp y \<le> y"
        using bexp_bounds(1) [of y] ypos by simp
      ultimately show False using yd by linarith
    next
      case False
      then have ue: "ulp_exp y + 23 = - 126" by (simp add: ulp_exp_def)
      have "d \<le> 2 powi (- 126)" using e3 unfolding ue .
      moreover have "\<bar>x\<bar> = x" using x0 by (rule abs_of_nonneg)
      ultimately have small: "\<bar>x\<bar> < 2 powi (- 126)" using xd by linarith
      obtain Nc Nt :: int where
        "c = real_of_int Nc * 2 powi (- 149)" "t = real_of_int Nt * 2 powi (- 149)"
        using f32_multiple_of_min [OF c] f32_multiple_of_min [OF t] by blast
      then have "x = real_of_int (Nt - Nc) * 2 powi (- 149)"
        by (simp add: x_def algebra_simps)
      then have "rnd32 x = x" using small by (rule rnd32_small_exact)
      then show False using xd by (simp add: d_def)
    qed
  qed
  then show ?thesis by (simp add: p_def d_def x_def)
qed

lemma smooth_core_up:
  assumes c: "rnd32 c = c" and t: "rnd32 t = t"
    and k: "rnd32 k = k" "0 < k" "k < 1"
    and ct: "c \<le> t"
  shows "c \<le> rnd32 (c + rnd32 (k * rnd32 (t - c)))"
    and "rnd32 (c + rnd32 (k * rnd32 (t - c))) \<le> t"
proof -
  let ?p = "rnd32 (k * rnd32 (t - c))"
  have "0 \<le> rnd32 (t - c)" using ct by (intro rnd32_nonneg) simp
  then have "0 \<le> k * rnd32 (t - c)" using k(2) by simp
  then have p0: "0 \<le> ?p" by (rule rnd32_nonneg)
  have "rnd32 c \<le> rnd32 (c + ?p)" using p0 by (intro rnd32_mono) simp
  then show "c \<le> rnd32 (c + ?p)" by (simp add: c)
  have "?p \<le> t - c" by (rule rounded_increment_le [OF c t k ct])
  then have "rnd32 (c + ?p) \<le> rnd32 t" by (intro rnd32_mono) simp
  then show "rnd32 (c + ?p) \<le> t" by (simp add: t)
qed

lemma smooth_core_down:
  assumes c: "rnd32 c = c" and t: "rnd32 t = t"
    and k: "rnd32 k = k" "0 < k" "k < 1"
    and ct: "t \<le> c"
  shows "t \<le> rnd32 (c + rnd32 (k * rnd32 (t - c)))"
    and "rnd32 (c + rnd32 (k * rnd32 (t - c))) \<le> c"
proof -
  have c': "rnd32 (- c) = - c" and t': "rnd32 (- t) = - t"
    by (simp_all add: rnd32_minus c t)
  have ct': "- c \<le> - t" using ct by simp
  have m: "rnd32 (- c + rnd32 (k * rnd32 (- t - (- c))))
      = - rnd32 (c + rnd32 (k * rnd32 (t - c)))"
  proof -
    have "- t - (- c) = - (t - c)" by simp
    then have "rnd32 (- t - (- c)) = - rnd32 (t - c)" by (simp only: rnd32_minus)
    then have "rnd32 (k * rnd32 (- t - (- c))) = rnd32 (- (k * rnd32 (t - c)))" by simp
    then have "rnd32 (k * rnd32 (- t - (- c))) = - rnd32 (k * rnd32 (t - c))"
      by (simp only: rnd32_minus)
    then have "- c + rnd32 (k * rnd32 (- t - (- c))) = - (c + rnd32 (k * rnd32 (t - c)))"
      by simp
    then show ?thesis by (simp only: rnd32_minus)
  qed
  note u = smooth_core_up [OF c' t' k ct', unfolded m]
  show "t \<le> rnd32 (c + rnd32 (k * rnd32 (t - c)))" using u(2) by simp
  show "rnd32 (c + rnd32 (k * rnd32 (t - c))) \<le> c" using u(1) by simp
qed

lemma rnd32_FLT_MAX: "rnd32 FLT_MAX = FLT_MAX"
proof -
  have b: "bexp FLT_MAX = 127"
    by (rule bexp_unique) (simp_all add: FLT_MAX_def)
  have r: "FLT_MAX = real_of_int 16777215 * 2 powi 104"
    by (simp add: FLT_MAX_def)
  show ?thesis
    by (rule rnd32_grid_fixed [OF r]) (simp add: ulp_exp_def b)
qed

lemma rnd32_abs_le_FLT_MAX:
  assumes "\<bar>x\<bar> \<le> FLT_MAX"
  shows "\<bar>rnd32 x\<bar> \<le> FLT_MAX"
proof -
  have "rnd32 x \<le> rnd32 FLT_MAX" using assms by (intro rnd32_mono) simp
  moreover have "rnd32 (- FLT_MAX) \<le> rnd32 x" using assms by (intro rnd32_mono) simp
  ultimately show ?thesis by (simp add: rnd32_minus rnd32_FLT_MAX)
qed

lemma f32_round_finite: "\<bar>x\<bar> \<le> FLT_MAX \<Longrightarrow> f32_round x = Some (rnd32 x)"
  using rnd32_abs_le_FLT_MAX [of x] by (simp add: f32_round_def)

lemma is_f32_iff: "is_f32 x \<longleftrightarrow> rnd32 x = x \<and> \<bar>x\<bar> \<le> FLT_MAX"
  by (auto simp: is_f32_def f32_round_def Let_def)

lemma smooth_step_f32_between:
  assumes c: "is_f32 c" and t: "is_f32 t" and k: "is_f32 k" "0 < k" "k < 1"
    and fin: "\<bar>t - c\<bar> \<le> FLT_MAX"
  shows "\<exists>r. smooth_step_f32 (Some c) (Some t) (Some k) = Some r
    \<and> r = rnd32 (c + rnd32 (k * rnd32 (t - c)))
    \<and> is_f32 r \<and> min c t \<le> r \<and> r \<le> max c t"
proof -
  have rc: "rnd32 c = c" and rt: "rnd32 t = t" and rk: "rnd32 k = k"
    and mc: "\<bar>c\<bar> \<le> FLT_MAX" and mt: "\<bar>t\<bar> \<le> FLT_MAX"
    using c t k(1) by (simp_all add: is_f32_iff)
  define d where "d = rnd32 (t - c)"
  define p where "p = rnd32 (k * d)"
  define r where "r = rnd32 (c + p)"
  have dm: "\<bar>d\<bar> \<le> FLT_MAX" unfolding d_def by (rule rnd32_abs_le_FLT_MAX [OF fin])
  have "\<bar>k * d\<bar> \<le> 1 * \<bar>d\<bar>"
    unfolding abs_mult using k(2,3) by (intro mult_right_mono) simp_all
  then have kd: "\<bar>k * d\<bar> \<le> FLT_MAX" using dm by simp
  have btw: "min c t \<le> r \<and> r \<le> max c t"
  proof (cases "c \<le> t")
    case True
    then show ?thesis
      using smooth_core_up [OF rc rt rk k(2,3) True] by (simp add: r_def p_def d_def)
  next
    case False
    then have tc: "t \<le> c" by simp
    then show ?thesis
      using smooth_core_down [OF rc rt rk k(2,3) tc] by (simp add: r_def p_def d_def)
  qed
  then have rm: "\<bar>r\<bar> \<le> FLT_MAX" using mc mt by (simp add: min_def max_def split: if_splits; linarith)
  have "rnd32 r = r" unfolding r_def by (rule rnd32_idem)
  then have ir: "is_f32 r" using rm by (simp add: is_f32_iff)
  have s1: "f32_sub (Some t) (Some c) = Some d"
    by (simp add: f32_sub_def f32_round_finite [OF fin] d_def)
  have s2: "f32_mul (Some k) (Some d) = Some p"
    by (simp add: f32_mul_def f32_round_finite [OF kd] p_def)
  have "\<bar>rnd32 (c + p)\<bar> \<le> FLT_MAX" using rm by (simp add: r_def)
  then have s3: "f32_add (Some c) (Some p) = Some r"
    by (simp add: f32_add_def f32_round_def r_def)
  have "smooth_step_f32 (Some c) (Some t) (Some k) = Some r"
    by (simp add: smooth_step_f32_def s1 s2 s3)
  then show ?thesis using ir btw by (simp add: r_def p_def d_def)
qed

lemma rnd32_rel_error:
  "\<bar>rnd32 z - z\<bar> \<le> \<bar>z\<bar> * 2 powi (- 24) + 2 powi (- 150)"
proof (cases "z = 0")
  case True
  then show ?thesis by simp
next
  case False
  have e: "\<bar>rnd32 z - z\<bar> \<le> 2 powi ulp_exp z / 2" by (rule rnd32_error)
  show ?thesis
  proof (cases "- 126 \<le> bexp z")
    case True
    then have "ulp_exp z = (bexp z + (- 24)) + 1" by (simp add: ulp_exp_def)
    then have "(2::real) powi ulp_exp z = 2 * 2 powi (bexp z + (- 24))"
      by (simp only: power_int_2_Suc)
    also have "\<dots> = 2 * (2 powi bexp z * 2 powi (- 24))"
      by (simp only: power_int_2_add)
    finally have "(2::real) powi ulp_exp z / 2 = 2 powi bexp z * 2 powi (- 24)"
      by simp
    moreover have "2 powi bexp z * 2 powi (- 24) \<le> \<bar>z\<bar> * 2 powi (- 24)"
      using bexp_bounds(1) [OF False] by (intro mult_right_mono) simp_all
    moreover have "0 \<le> (2::real) powi (- 150)" by simp
    ultimately show ?thesis using e by linarith
  next
    case False
    then have "ulp_exp z = - 149" by (simp add: ulp_exp_def)
    then have "(2::real) powi ulp_exp z / 2 = 2 powi (- 150)"
      by (simp add: power_int_minus_divide)
    moreover have "0 \<le> \<bar>z\<bar> * 2 powi (- 24)" by simp
    ultimately show ?thesis using e by linarith
  qed
qed

lemma smooth_step_f32_error:
  assumes c: "rnd32 c = c" and t: "rnd32 t = t"
    and k: "rnd32 k = k" "0 < k" "k < 1"
  shows "\<bar>rnd32 (c + rnd32 (k * rnd32 (t - c))) - (c + k * (t - c))\<bar>
    \<le> (max \<bar>c\<bar> \<bar>t\<bar> + 3 * k * \<bar>t - c\<bar>) * 2 powi (- 24) + 3 * 2 powi (- 150)"
proof -
  define eps :: real where "eps = 2 powi (- 24)"
  define eta :: real where "eta = 2 powi (- 150)"
  define x where "x = t - c"
  define d where "d = rnd32 x"
  define p where "p = rnd32 (k * d)"
  define r where "r = rnd32 (c + p)"
  have eps0: "0 \<le> eps" and eta0: "0 \<le> eta" by (simp_all add: eps_def eta_def)
  have e1: "\<bar>d - x\<bar> \<le> \<bar>x\<bar> * eps + eta"
    unfolding d_def eps_def eta_def by (rule rnd32_rel_error)
  have e2: "\<bar>p - k * d\<bar> \<le> \<bar>k * d\<bar> * eps + eta"
    unfolding p_def eps_def eta_def by (rule rnd32_rel_error)
  have e3: "\<bar>r - (c + p)\<bar> \<le> \<bar>c + p\<bar> * eps + eta"
    unfolding r_def eps_def eta_def by (rule rnd32_rel_error)
  have dx: "\<bar>d\<bar> \<le> 2 * \<bar>x\<bar>"
  proof (cases "0 \<le> x")
    case True
    then show ?thesis
      using rnd32_le_double [OF True] rnd32_nonneg [OF True] by (simp add: d_def)
  next
    case False
    then have n: "0 \<le> - x" by simp
    show ?thesis
      using rnd32_le_double [OF n] rnd32_nonneg [OF n] False
      by (simp add: d_def rnd32_minus)
  qed
  have between: "min c t \<le> c + p \<and> c + p \<le> max c t"
  proof (cases "c \<le> t")
    case True
    have "0 \<le> rnd32 (t - c)" using True by (intro rnd32_nonneg) simp
    then have "0 \<le> k * rnd32 (t - c)" using k(2) by simp
    then have "0 \<le> p" unfolding p_def d_def x_def by (rule rnd32_nonneg)
    moreover have "p \<le> t - c"
      unfolding p_def d_def x_def by (rule rounded_increment_le [OF c t k True])
    ultimately show ?thesis using True by simp
  next
    case False
    then have tc: "- c \<le> - t" by simp
    have c': "rnd32 (- c) = - c" and t': "rnd32 (- t) = - t"
      by (simp_all add: rnd32_minus c t)
    have m: "rnd32 (k * rnd32 (- t - (- c))) = - p"
    proof -
      have "- t - (- c) = - (t - c)" by simp
      then have "rnd32 (- t - (- c)) = - rnd32 (t - c)" by (simp only: rnd32_minus)
      then have "rnd32 (k * rnd32 (- t - (- c))) = rnd32 (- (k * rnd32 (t - c)))" by simp
      then show ?thesis by (simp only: rnd32_minus p_def d_def x_def)
    qed
    have "0 \<le> rnd32 (- t - (- c))" using tc by (intro rnd32_nonneg) simp
    then have "0 \<le> k * rnd32 (- t - (- c))" using k(2) by simp
    then have "0 \<le> rnd32 (k * rnd32 (- t - (- c)))" by (rule rnd32_nonneg)
    then have "0 \<le> - p" by (simp only: m)
    then have "p \<le> 0" by simp
    moreover have "rnd32 (k * rnd32 (- t - (- c))) \<le> - t - (- c)"
      by (rule rounded_increment_le [OF c' t' k tc])
    then have "- p \<le> - t - (- c)" by (simp only: m)
    then have "t - c \<le> p" by simp
    ultimately show ?thesis using False by simp
  qed
  then have cp: "\<bar>c + p\<bar> \<le> max \<bar>c\<bar> \<bar>t\<bar>" by (simp add: min_def max_def split: if_splits; linarith)
  have kd: "\<bar>k * d\<bar> \<le> 2 * k * \<bar>x\<bar>"
  proof -
    have "\<bar>k * d\<bar> = k * \<bar>d\<bar>" using k(2) by (simp add: abs_mult)
    also have "\<dots> \<le> k * (2 * \<bar>x\<bar>)" using dx k(2) by (intro mult_left_mono) simp_all
    finally show ?thesis by simp
  qed
  have k1: "k * \<bar>d - x\<bar> \<le> k * (\<bar>x\<bar> * eps + eta)"
    using e1 k(2) by (intro mult_left_mono) simp_all
  have "k * eta \<le> 1 * eta" using k(3) eta0 by (intro mult_right_mono) simp_all
  then have k2: "k * \<bar>d - x\<bar> \<le> k * \<bar>x\<bar> * eps + eta"
    using k1 by (simp add: algebra_simps)
  have "\<bar>k * d\<bar> * eps \<le> 2 * k * \<bar>x\<bar> * eps" using kd eps0 by (intro mult_right_mono)
  then have e2': "\<bar>p - k * d\<bar> \<le> 2 * k * \<bar>x\<bar> * eps + eta" using e2 by linarith
  have "\<bar>c + p\<bar> * eps \<le> max \<bar>c\<bar> \<bar>t\<bar> * eps" using cp eps0 by (intro mult_right_mono)
  then have e3': "\<bar>r - (c + p)\<bar> \<le> max \<bar>c\<bar> \<bar>t\<bar> * eps + eta" using e3 by linarith
  have "r - (c + k * x) = (r - (c + p)) + (p - k * d) + k * (d - x)"
    by (simp add: algebra_simps)
  then have "\<bar>r - (c + k * x)\<bar> \<le> \<bar>r - (c + p)\<bar> + \<bar>p - k * d\<bar> + \<bar>k * (d - x)\<bar>"
    by linarith
  moreover have "\<bar>k * (d - x)\<bar> = k * \<bar>d - x\<bar>" using k(2) by (simp add: abs_mult)
  ultimately have "\<bar>r - (c + k * x)\<bar>
      \<le> (max \<bar>c\<bar> \<bar>t\<bar> * eps + eta) + (2 * k * \<bar>x\<bar> * eps + eta) + (k * \<bar>x\<bar> * eps + eta)"
    using e3' e2' k2 by linarith
  also have "\<dots> = (max \<bar>c\<bar> \<bar>t\<bar> + 3 * k * \<bar>x\<bar>) * eps + 3 * eta"
    by (simp add: algebra_simps)
  finally show ?thesis
    by (simp only: r_def p_def d_def x_def eps_def eta_def)
qed

lemma smooth_run_f32_between:
  assumes c: "is_f32 c" and t: "is_f32 t" and k: "is_f32 k" "0 < k" "k < 1"
    and fin: "\<bar>t - c\<bar> \<le> FLT_MAX"
  shows "\<exists>r. smooth_run_f32 (Some c) (Some t) (Some k) n = Some r
    \<and> is_f32 r \<and> min c t \<le> r \<and> r \<le> max c t"
proof (induction n)
  case 0
  show ?case using c by simp
next
  case (Suc n)
  then obtain r where r: "smooth_run_f32 (Some c) (Some t) (Some k) n = Some r"
    "is_f32 r" "min c t \<le> r" "r \<le> max c t" by blast
  have f: "\<bar>t - r\<bar> \<le> FLT_MAX"
    using r(3,4) fin by (simp add: min_def max_def split: if_splits; linarith)
  obtain r' where r': "smooth_step_f32 (Some r) (Some t) (Some k) = Some r'"
    "is_f32 r'" "min r t \<le> r'" "r' \<le> max r t"
    using smooth_step_f32_between [OF r(2) t k f] by blast
  have "min c t \<le> r' \<and> r' \<le> max c t"
    using r(3,4) r'(3,4) by (simp add: min_def max_def split: if_splits; linarith)
  then show ?case using r(1) r'(1,2) by simp
qed

text \<open>
  C2 as stated fails of the binary32 code. With \<open>c = 440.99969482421875\<close>, \<open>t = 441\<close>
  and \<open>k = 0.05f\<close> the update returns \<open>c\<close> itself: the increment \<open>k * (t - c)\<close> rounds to
  half a unit in the last place of \<open>c\<close> and the sum rounds back to \<open>c\<close>. The distance to
  the target is then not multiplied by \<open>1 - k\<close>, and the iteration stays at \<open>c\<close> and does
  not approach \<open>t\<close>. With \<open>c = 3e38f\<close>, \<open>t = - 3e38f\<close> and \<open>k = 0.5\<close> the difference
  overflows and the result is not finite, so it is not between \<open>c\<close> and \<open>t\<close>.
\<close>

theorem smooth_step_f32_stall_counterexample:
  "is_f32 (7225339 / 16384) \<and> is_f32 441 \<and> is_f32 (13421773 / 268435456)
   \<and> (7225339 / 16384 :: real) = 440.99969482421875
   \<and> smooth_step_f32 (Some (7225339 / 16384)) (Some 441) (Some (13421773 / 268435456))
       = Some (7225339 / 16384)
   \<and> \<bar>441 - 7225339 / 16384\<bar> \<noteq> (1 - 13421773 / 268435456) * \<bar>441 - 7225339 / 16384 :: real\<bar>
   \<and> smooth_run_f32 (Some (7225339 / 16384)) (Some 441) (Some (13421773 / 268435456)) 3
       = Some (7225339 / 16384)
   \<and> is_f32 300000000549775575777803994281145270272
   \<and> is_f32 (- 300000000549775575777803994281145270272)
   \<and> is_f32 (1 / 2)
   \<and> smooth_step_f32 (Some 300000000549775575777803994281145270272)
        (Some (- 300000000549775575777803994281145270272)) (Some (1 / 2)) = None"
  by code_simp

text \<open>
  C2, amended. For finite binary32 values \<open>c\<close>, \<open>t\<close> whose difference does not overflow
  and a binary32 coefficient \<open>k\<close> strictly between 0 and 1, the binary32 update
  \<open>smooth_step(c, t, k)\<close> is finite and lies between \<open>c\<close> and \<open>t\<close> (it never overshoots
  the target and never moves away from it). It differs from the exact value
  \<open>c + k * (t - c)\<close>, and the new distance \<open>t - c'\<close> from \<open>(1 - k) * (t - c)\<close>, by at most
  the three rounding errors, bounded by
  \<open>(max \<bar>c\<bar> \<bar>t\<bar> + 3 * k * \<bar>t - c\<bar>) / 2 ^ 24 + 3 / 2 ^ 150\<close>. Repeated with the same
  target, every iterate is finite and between \<open>c\<close> and \<open>t\<close>, each one lies between its
  predecessor and \<open>t\<close>, and the distance to \<open>t\<close> never grows; it need not shrink, and
  the iteration can stall short of the target.
\<close>

theorem smooth_step_f32_bounded:
  assumes "is_f32 c" and "is_f32 t" and "is_f32 k" and "0 < k" and "k < 1"
    and "\<bar>t - c\<bar> \<le> FLT_MAX"
  shows "\<exists>r r_n r_n1.
      smooth_step_f32 (Some c) (Some t) (Some k) = Some r
    \<and> min c t \<le> r \<and> r \<le> max c t
    \<and> \<bar>r - (c + k * (t - c))\<bar>
        \<le> (max \<bar>c\<bar> \<bar>t\<bar> + 3 * k * \<bar>t - c\<bar>) / 2 ^ 24 + 3 / 2 ^ 150
    \<and> \<bar>(t - r) - (1 - k) * (t - c)\<bar>
        \<le> (max \<bar>c\<bar> \<bar>t\<bar> + 3 * k * \<bar>t - c\<bar>) / 2 ^ 24 + 3 / 2 ^ 150
    \<and> smooth_run_f32 (Some c) (Some t) (Some k) n = Some r_n
    \<and> smooth_run_f32 (Some c) (Some t) (Some k) (Suc n) = Some r_n1
    \<and> min c t \<le> r_n \<and> r_n \<le> max c t
    \<and> min r_n t \<le> r_n1 \<and> r_n1 \<le> max r_n t
    \<and> \<bar>t - r_n1\<bar> \<le> \<bar>t - r_n\<bar>"
proof -
  have rc: "rnd32 c = c" and rt: "rnd32 t = t" and rk: "rnd32 k = k"
    using assms(1-3) by (simp_all add: is_f32_iff)
  obtain r where r: "smooth_step_f32 (Some c) (Some t) (Some k) = Some r"
    "r = rnd32 (c + rnd32 (k * rnd32 (t - c)))" "min c t \<le> r" "r \<le> max c t"
    using smooth_step_f32_between [OF assms] by blast
  have e: "\<bar>r - (c + k * (t - c))\<bar>
      \<le> (max \<bar>c\<bar> \<bar>t\<bar> + 3 * k * \<bar>t - c\<bar>) * 2 powi (- 24) + 3 * 2 powi (- 150)"
    unfolding r(2) by (rule smooth_step_f32_error [OF rc rt rk assms(4,5)])
  have p: "(2::real) powi (- 24) = 1 / 2 ^ 24" "(2::real) powi (- 150) = 1 / 2 ^ 150"
    by (simp_all add: power_int_minus_divide)
  have e1: "\<bar>r - (c + k * (t - c))\<bar>
      \<le> (max \<bar>c\<bar> \<bar>t\<bar> + 3 * k * \<bar>t - c\<bar>) / 2 ^ 24 + 3 / 2 ^ 150"
    using e unfolding p by simp
  have "(t - r) - (1 - k) * (t - c) = - (r - (c + k * (t - c)))"
    by (simp add: algebra_simps)
  then have e2: "\<bar>(t - r) - (1 - k) * (t - c)\<bar>
      \<le> (max \<bar>c\<bar> \<bar>t\<bar> + 3 * k * \<bar>t - c\<bar>) / 2 ^ 24 + 3 / 2 ^ 150"
    using e1 by (simp only: abs_minus)
  obtain r_n where n: "smooth_run_f32 (Some c) (Some t) (Some k) n = Some r_n"
    "is_f32 r_n" "min c t \<le> r_n" "r_n \<le> max c t"
    using smooth_run_f32_between [OF assms] by blast
  have f: "\<bar>t - r_n\<bar> \<le> FLT_MAX"
    using n(3,4) assms(6) by (simp add: min_def max_def split: if_splits; linarith)
  obtain r_n1 where n1: "smooth_step_f32 (Some r_n) (Some t) (Some k) = Some r_n1"
    "min r_n t \<le> r_n1" "r_n1 \<le> max r_n t"
    using smooth_step_f32_between [OF n(2) assms(2-5) f] by blast
  have s: "smooth_run_f32 (Some c) (Some t) (Some k) (Suc n) = Some r_n1"
    by (simp add: n(1) n1(1))
  have d: "\<bar>t - r_n1\<bar> \<le> \<bar>t - r_n\<bar>"
    using n1(2,3) by (simp add: min_def max_def split: if_splits; linarith)
  show ?thesis
    using r(1,3,4) e1 e2 n(1,3,4) s n1(2,3) d by blast
qed

theorem smooth_step_f32_bounded_witness:
  "is_f32 440 \<and> is_f32 2000 \<and> is_f32 (13421773 / 268435456)
   \<and> (0::real) < 13421773 / 268435456 \<and> (13421773 / 268435456 :: real) < 1
   \<and> \<bar>2000 - 440 :: real\<bar> \<le> FLT_MAX
   \<and> smooth_step_f32 (Some 440) (Some 2000) (Some (13421773 / 268435456)) = Some 518
   \<and> smooth_run_f32 (Some 440) (Some 2000) (Some (13421773 / 268435456)) 2
       = Some (4850483 / 8192)
   \<and> (\<exists>r r_n r_n1.
        smooth_step_f32 (Some 440) (Some 2000) (Some (13421773 / 268435456)) = Some r
      \<and> min 440 2000 \<le> r \<and> r \<le> max 440 2000
      \<and> \<bar>r - (440 + 13421773 / 268435456 * (2000 - 440))\<bar>
          \<le> (max \<bar>440\<bar> \<bar>2000\<bar> + 3 * (13421773 / 268435456) * \<bar>2000 - 440\<bar>) / 2 ^ 24
            + 3 / 2 ^ 150
      \<and> \<bar>(2000 - r) - (1 - 13421773 / 268435456) * (2000 - 440)\<bar>
          \<le> (max \<bar>440\<bar> \<bar>2000\<bar> + 3 * (13421773 / 268435456) * \<bar>2000 - 440\<bar>) / 2 ^ 24
            + 3 / 2 ^ 150
      \<and> smooth_run_f32 (Some 440) (Some 2000) (Some (13421773 / 268435456)) 2 = Some r_n
      \<and> smooth_run_f32 (Some 440) (Some 2000) (Some (13421773 / 268435456)) (Suc 2)
          = Some r_n1
      \<and> min 440 2000 \<le> r_n \<and> r_n \<le> max 440 2000
      \<and> min r_n 2000 \<le> r_n1 \<and> r_n1 \<le> max r_n 2000
      \<and> \<bar>2000 - r_n1\<bar> \<le> \<bar>2000 - r_n\<bar>)"
proof -
  have h: "is_f32 440" "is_f32 2000" "is_f32 (13421773 / 268435456)"
    "(0::real) < 13421773 / 268435456" "(13421773 / 268435456 :: real) < 1"
    "\<bar>2000 - 440 :: real\<bar> \<le> FLT_MAX"
    by code_simp+
  have v: "smooth_step_f32 (Some 440) (Some 2000) (Some (13421773 / 268435456)) = Some 518"
    "smooth_run_f32 (Some 440) (Some 2000) (Some (13421773 / 268435456)) 2
       = Some (4850483 / 8192)"
    by code_simp+
  show ?thesis
    by (intro conjI) (rule h v smooth_step_f32_bounded [OF h, of 2])+
qed

subsection \<open>The per-sample step\<close>

lemma update_oscillators_fields:
  "smoothHz (update_oscillators dt p st) = next_smoothHz p st"
  "smoothGain (update_oscillators dt p st) = next_smoothGain p st"
  "vibratoPhase (update_oscillators dt p st) = next_vibratoPhase dt st"
  "phaseA (update_oscillators dt p st) = wrap_phase (phaseA st + incA dt p st)"
  "phaseB (update_oscillators dt p st) = wrap_phase (phaseB st + incB dt p st)"
  "delayBufL (update_oscillators dt p st) = delayBufL st"
  "delayBufR (update_oscillators dt p st) = delayBufR st"
  "delayIndex (update_oscillators dt p st) = delayIndex st"
  "delayL (update_oscillators dt p st) = delayL st"
  "delayR (update_oscillators dt p st) = delayR st"
  by (simp_all add: update_oscillators_def)

lemma synth_dry_eq:
  "synth_dry dt p (st, seed) =
     (update_oscillators dt p st,
      snd (waveform (mode p) (phaseA (update_oscillators dt p st))
             (phaseB (update_oscillators dt p st)) seed),
      fst (waveform (mode p) (phaseA (update_oscillators dt p st))
             (phaseB (update_oscillators dt p st)) seed)
        * applied_gain p (update_oscillators dt p st),
      fst (waveform (mode p) (phaseA (update_oscillators dt p st))
             (phaseB (update_oscillators dt p st)) seed)
        * applied_gain p (update_oscillators dt p st))"
  by (simp add: synth_dry_def Let_def case_prod_beta)

lemma decorrelate_in_bounds:
  assumes "delayIndex st < length (delayBufL st)" and "delayIndex st < length (delayBufR st)"
  shows "decorrelate st dryL dryR =
     Inr (st\<lparr>delayBufL := (delayBufL st)[delayIndex st :=
                 0.85 * (delayBufL st ! delayIndex st) + 0.15 * dryL],
              delayBufR := (delayBufR st)[delayIndex st :=
                 0.85 * (delayBufR st ! delayIndex st) + 0.15 * dryR],
              delayIndex := (delayIndex st + 1) mod length (delayBufL st)\<rparr>,
          0.85 * dryL + 0.15 * (delayBufR st ! delayIndex st),
          0.85 * dryR + 0.15 * (delayBufL st ! delayIndex st))"
  using assms by (simp add: decorrelate_def Let_def)

lemma decorrelate_out_of_bounds:
  assumes "\<not> (delayIndex st < length (delayBufL st) \<and> delayIndex st < length (delayBufR st))"
  shows "decorrelate st dryL dryR = Inl OutOfBounds"
  using assms by (simp add: decorrelate_def Let_def)

lemma render_sample_in_bounds:
  assumes "delayIndex st < length (delayBufL st)" and "delayIndex st < length (delayBufR st)"
    and "synth_dry dt p (st, seed) = (st1, seed1, dryL, dryR)"
  shows "render_sample dt p (st, seed) =
     Inr ((st1\<lparr>delayBufL := (delayBufL st)[delayIndex st :=
                  0.85 * (delayBufL st ! delayIndex st) + 0.15 * dryL],
               delayBufR := (delayBufR st)[delayIndex st :=
                  0.85 * (delayBufR st ! delayIndex st) + 0.15 * dryR],
               delayIndex := (delayIndex st + 1) mod length (delayBufL st)\<rparr>, seed1),
          0.85 * dryL + 0.15 * (delayBufR st ! delayIndex st),
          0.85 * dryR + 0.15 * (delayBufL st ! delayIndex st))"
proof -
  have st1: "st1 = update_oscillators dt p st"
    using assms(3) by (simp add: synth_dry_eq)
  have b: "delayIndex st1 < length (delayBufL st1)" "delayIndex st1 < length (delayBufR st1)"
    using assms(1,2) by (simp_all add: st1 update_oscillators_fields)
  show ?thesis
    unfolding render_sample_def assms(3)
    by (simp add: decorrelate_in_bounds [OF b]) (simp add: st1 update_oscillators_fields)
qed

lemma render_sample_total:
  assumes "delay_ok st"
  shows "\<exists>st' seed' outL outR.
     render_sample dt p (st, seed) = Inr ((st', seed'), outL, outR)
     \<and> delay_ok st'
     \<and> length (delayBufL st') = length (delayBufL st)
     \<and> length (delayBufR st') = length (delayBufR st)
     \<and> smoothHz st' = next_smoothHz p st
     \<and> smoothGain st' = next_smoothGain p st
     \<and> vibratoPhase st' = vibratoPhase (update_oscillators dt p st)
     \<and> phaseA st' = phaseA (update_oscillators dt p st)
     \<and> phaseB st' = phaseB (update_oscillators dt p st)"
proof -
  obtain st1 seed1 dryL dryR where d: "synth_dry dt p (st, seed) = (st1, seed1, dryL, dryR)"
    by (metis prod_cases4)
  have st1: "st1 = update_oscillators dt p st"
    using d by (simp add: synth_dry_eq)
  have b: "delayIndex st < length (delayBufL st)" "delayIndex st < length (delayBufR st)"
    and e: "length (delayBufL st) = length (delayBufR st)"
    using assms by (simp_all add: delay_ok_def)
  have pos: "0 < length (delayBufL st)" using b(1) by (rule le_less_trans [OF le0])
  show ?thesis
    unfolding render_sample_in_bounds [OF b d]
    using e pos by (simp add: delay_ok_def st1 update_oscillators_fields)
qed


lemma render_frames_total:
  assumes "delay_ok st"
  shows "\<exists>st' seed' frames.
     render_frames dt ps i n (st, seed) = Inr ((st', seed'), frames)
     \<and> delay_ok st'
     \<and> length (delayBufL st') = length (delayBufL st)
     \<and> length (delayBufR st') = length (delayBufR st)
     \<and> length frames = n"
  using assms
proof (induction n arbitrary: i st seed)
  case 0
  then show ?case by simp
next
  case (Suc n)
  obtain st1 seed1 outL outR where
    s1: "render_sample dt (ps i) (st, seed) = Inr ((st1, seed1), outL, outR)"
    and ok1: "delay_ok st1"
    and l1: "length (delayBufL st1) = length (delayBufL st)"
      "length (delayBufR st1) = length (delayBufR st)"
    using render_sample_total [OF Suc.prems, of dt "ps i" seed] by blast
  obtain st2 seed2 frames where
    s2: "render_frames dt ps (Suc i) n (st1, seed1) = Inr ((st2, seed2), frames)"
    and ok2: "delay_ok st2"
    and l2: "length (delayBufL st2) = length (delayBufL st1)"
      "length (delayBufR st2) = length (delayBufR st1)"
    and n: "length frames = n"
    using Suc.IH [OF ok1, of "Suc i" seed1] by blast
  have "render_frames dt ps i (Suc n) (st, seed) = Inr ((st2, seed2), (outL, outR) # frames)"
    by (simp add: s1 s2)
  then show ?case using ok2 l1 l2 n by simp
qed

lemma delaySamples_48000: "delaySamples 48000 = 576"
  by (simp add: delaySamples_def)

lemma audio_thread_init_delay_ok:
  assumes "1 \<le> delaySamples sr"
  shows "delay_ok (audio_thread_init sr st)"
  using assms by (simp add: delay_ok_def audio_thread_init_def)

text \<open>
  C10. When the delay lines are set up with at least one cell
  (\<open>delaySamples = \<lfloor>sampleRate * 0.012\<rfloor> \<ge> 1\<close>), the state the thread starts from has its
  cursor below the common length of the two buffers; from any such state a sample is
  computed without an access outside either buffer, the lengths stay as they are and
  the cursor, advanced to \<open>(i + 1) mod length\<close>, is again below the length; so it is for
  every frame of a pass of the render loop.
\<close>

theorem delay_cursor_in_bounds:
  "(1 \<le> delaySamples sr \<longrightarrow> delay_ok (audio_thread_init sr st0))
   \<and> (delay_ok st \<longrightarrow>
        (\<exists>st' seed' outL outR.
           render_sample dt p (st, seed) = Inr ((st', seed'), outL, outR)
           \<and> delayIndex st' = (delayIndex st + 1) mod length (delayBufL st)
           \<and> delayIndex st' < length (delayBufL st')
           \<and> length (delayBufL st') = length (delayBufL st)
           \<and> length (delayBufR st') = length (delayBufR st)
           \<and> delay_ok st'))
   \<and> (delay_ok st \<longrightarrow>
        (\<exists>st' seed' frames.
           render_frames dt ps i n (st, seed) = Inr ((st', seed'), frames)
           \<and> delayIndex st' < length (delayBufL st')
           \<and> length (delayBufL st') = length (delayBufL st)
           \<and> length (delayBufR st') = length (delayBufR st)
           \<and> delay_ok st'))"
proof (intro conjI impI)
  assume "1 \<le> delaySamples sr"
  then show "delay_ok (audio_thread_init sr st0)" by (rule audio_thread_init_delay_ok)
next
  assume ok: "delay_ok st"
  obtain st1 seed1 dryL dryR where d: "synth_dry dt p (st, seed) = (st1, seed1, dryL, dryR)"
    by (metis prod_cases4)
  have b: "delayIndex st < length (delayBufL st)" "delayIndex st < length (delayBufR st)"
    using ok by (simp_all add: delay_ok_def)
  obtain st' seed' outL outR where
    r: "render_sample dt p (st, seed) = Inr ((st', seed'), outL, outR)"
    and ok': "delay_ok st'"
    and l: "length (delayBufL st') = length (delayBufL st)"
      "length (delayBufR st') = length (delayBufR st)"
    using render_sample_total [OF ok, of dt p seed] by blast
  have "delayIndex st' = (delayIndex st + 1) mod length (delayBufL st)"
    using r unfolding render_sample_in_bounds [OF b d] by auto
  moreover have "delayIndex st' < length (delayBufL st')"
    using ok' by (simp add: delay_ok_def)
  ultimately show "\<exists>st' seed' outL outR.
           render_sample dt p (st, seed) = Inr ((st', seed'), outL, outR)
           \<and> delayIndex st' = (delayIndex st + 1) mod length (delayBufL st)
           \<and> delayIndex st' < length (delayBufL st')
           \<and> length (delayBufL st') = length (delayBufL st)
           \<and> length (delayBufR st') = length (delayBufR st)
           \<and> delay_ok st'"
    using r ok' l by blast
next
  assume ok: "delay_ok st"
  obtain st' seed' frames where
    r: "render_frames dt ps i n (st, seed) = Inr ((st', seed'), frames)"
    and ok': "delay_ok st'"
    and l: "length (delayBufL st') = length (delayBufL st)"
      "length (delayBufR st') = length (delayBufR st)"
    using render_frames_total [OF ok, of dt ps i n seed] by blast
  have "delayIndex st' < length (delayBufL st')"
    using ok' by (simp add: delay_ok_def)
  then show "\<exists>st' seed' frames.
           render_frames dt ps i n (st, seed) = Inr ((st', seed'), frames)
           \<and> delayIndex st' < length (delayBufL st')
           \<and> length (delayBufL st') = length (delayBufL st)
           \<and> length (delayBufR st') = length (delayBufR st)
           \<and> delay_ok st'"
    using r ok' l by blast
qed


theorem delay_cursor_in_bounds_witness:
  "1 \<le> delaySamples 48000
   \<and> delay_ok (audio_thread_init 48000 gSynth)
   \<and> (\<exists>st' seed' outL outR.
         render_sample (1 / 48000) gParams (audio_thread_init 48000 gSynth, noise_seed0)
           = Inr ((st', seed'), outL, outR)
         \<and> delayIndex st' = 1 \<and> length (delayBufL st') = 576)"
proof -
  have h: "1 \<le> delaySamples 48000" by (simp add: delaySamples_48000)
  note t = delay_cursor_in_bounds [of 48000 gSynth "audio_thread_init 48000 gSynth"
      "1 / 48000" gParams noise_seed0 "\<lambda>_. gParams" 0 0]
  have ok: "delay_ok (audio_thread_init 48000 gSynth)" using t h by blast
  have i: "delayIndex (audio_thread_init 48000 gSynth) = 0"
    and l: "length (delayBufL (audio_thread_init 48000 gSynth)) = 576"
    by (simp_all add: audio_thread_init_def delaySamples_48000)
  from t ok obtain st' seed' outL outR where
    "render_sample (1 / 48000) gParams (audio_thread_init 48000 gSynth, noise_seed0)
       = Inr ((st', seed'), outL, outR)"
    "delayIndex st' = (delayIndex (audio_thread_init 48000 gSynth) + 1)
       mod length (delayBufL (audio_thread_init 48000 gSynth))"
    "length (delayBufL st') = length (delayBufL (audio_thread_init 48000 gSynth))"
    by blast
  then show ?thesis using h ok by (simp add: i l)
qed

text \<open>
  C6. At every sample, with the cursor inside two buffers of equal length, the
  decorrelation stage reads the old cells \<open>dL\<close>, \<open>dR\<close> at the cursor, writes
  \<open>0.85 * old + 0.15 * dry\<close> back to the same cell of each buffer, advances the cursor by
  one modulo the length, and outputs \<open>0.85 * dryL + 0.15 * dR\<close> on the left and
  \<open>0.85 * dryR + 0.15 * dL\<close> on the right.
\<close>

theorem stereo_decorrelation_step:
  assumes "length (delayBufL st) = length (delayBufR st)"
    and "delayIndex st < length (delayBufL st)"
  shows "render_sample dt p (st, seed) =
     (case synth_dry dt p (st, seed) of (st1, seed1, dryL, dryR) \<Rightarrow>
        Inr ((st1\<lparr>delayBufL := (delayBufL st)[delayIndex st :=
                     0.85 * (delayBufL st ! delayIndex st) + 0.15 * dryL],
                  delayBufR := (delayBufR st)[delayIndex st :=
                     0.85 * (delayBufR st ! delayIndex st) + 0.15 * dryR],
                  delayIndex := (delayIndex st + 1) mod length (delayBufL st)\<rparr>, seed1),
             0.85 * dryL + 0.15 * (delayBufR st ! delayIndex st),
             0.85 * dryR + 0.15 * (delayBufL st ! delayIndex st)))"
proof -
  obtain st1 seed1 dryL dryR where d: "synth_dry dt p (st, seed) = (st1, seed1, dryL, dryR)"
    by (metis prod_cases4)
  have b: "delayIndex st < length (delayBufR st)" using assms by simp
  show ?thesis
    unfolding render_sample_in_bounds [OF assms(2) b d] by (simp add: d)
qed

theorem stereo_decorrelation_step_witness:
  "length (delayBufL (gSynth\<lparr>delayBufL := [1, 2], delayBufR := [3, 4], delayIndex := 1\<rparr>))
     = length (delayBufR (gSynth\<lparr>delayBufL := [1, 2], delayBufR := [3, 4], delayIndex := 1\<rparr>))
   \<and> delayIndex (gSynth\<lparr>delayBufL := [1, 2], delayBufR := [3, 4], delayIndex := 1\<rparr>)
     < length (delayBufL (gSynth\<lparr>delayBufL := [1, 2], delayBufR := [3, 4], delayIndex := 1\<rparr>))
   \<and> (\<exists>st' seed'.
        render_sample (1 / 48000) gParams
          (gSynth\<lparr>delayBufL := [1, 2], delayBufR := [3, 4], delayIndex := 1\<rparr>, noise_seed0)
          = Inr ((st', seed'), 0.6, 0.3)
        \<and> delayBufL st' = [1, 1.7] \<and> delayBufR st' = [3, 3.4] \<and> delayIndex st' = 0)"
proof -
  define st where "st = gSynth\<lparr>delayBufL := [1, 2], delayBufR := [3, 4], delayIndex := 1\<rparr>"
  have a: "length (delayBufL st) = length (delayBufR st)"
    and b: "delayIndex st < length (delayBufL st)"
    by (simp_all add: st_def)
  have g: "applied_gain gParams (update_oscillators (1 / 48000) gParams st) = 0"
    by (simp add: applied_gain_def update_oscillators_fields next_smoothGain_def
        smooth_step_def gParams_def st_def gSynth_def)
  have d: "synth_dry (1 / 48000) gParams (st, noise_seed0) =
      (update_oscillators (1 / 48000) gParams st, noise_seed0, 0, 0)"
    unfolding synth_dry_eq g by (simp add: gParams_def waveform_mode1)
  have "render_sample (1 / 48000) gParams (st, noise_seed0) =
      Inr ((update_oscillators (1 / 48000) gParams st
              \<lparr>delayBufL := [1, 1.7], delayBufR := [3, 3.4], delayIndex := 0\<rparr>, noise_seed0),
           0.6, 0.3)"
    unfolding stereo_decorrelation_step [OF a b] d by (simp add: st_def)
  then show ?thesis using a b unfolding st_def by simp
qed

subsection \<open>Mute and the smoothed gain\<close>

lemma update_oscillators_mute:
  "update_oscillators dt (p\<lparr>mute := b\<rparr>) st = update_oscillators dt p st"
  by (simp add: update_oscillators_def next_smoothHz_def next_smoothGain_def incA_def incB_def
      carrier_hz_def vibrato_def)

lemma smoothGain_run_independent_of_mute:
  assumes "delay_ok st" and "delay_ok su"
    and "smoothGain su = smoothGain st"
    and "\<And>j. targetGain (qs j) = targetGain (ps j)"
  shows "\<exists>st' seed' fs su' seed'' gs.
     render_frames dt ps i n (st, seed) = Inr ((st', seed'), fs)
     \<and> render_frames dt qs i n (su, seed2) = Inr ((su', seed''), gs)
     \<and> smoothGain su' = smoothGain st'"
  using assms(1-3)
proof (induction n arbitrary: i st su seed seed2)
  case 0
  then show ?case by simp
next
  case (Suc n)
  obtain st1 seed1 outL outR where
    s1: "render_sample dt (ps i) (st, seed) = Inr ((st1, seed1), outL, outR)"
    and ok1: "delay_ok st1"
    and g1: "smoothGain st1 = next_smoothGain (ps i) st"
    using render_sample_total [OF Suc.prems(1), of dt "ps i" seed] by blast
  obtain su1 seed3 outL' outR' where
    u1: "render_sample dt (qs i) (su, seed2) = Inr ((su1, seed3), outL', outR')"
    and ok2: "delay_ok su1"
    and g2: "smoothGain su1 = next_smoothGain (qs i) su"
    using render_sample_total [OF Suc.prems(2), of dt "qs i" seed2] by blast
  have eq: "smoothGain su1 = smoothGain st1"
    using g1 g2 Suc.prems(3) assms(4) [of i] by (simp add: next_smoothGain_def)
  obtain st' seed' fs su' seed'' gs where
    r: "render_frames dt ps (Suc i) n (st1, seed1) = Inr ((st', seed'), fs)"
      "render_frames dt qs (Suc i) n (su1, seed3) = Inr ((su', seed''), gs)"
      "smoothGain su' = smoothGain st'"
    using Suc.IH [OF ok1 ok2 eq, of "Suc i" seed1 seed3] by blast
  have "render_frames dt ps i (Suc n) (st, seed) = Inr ((st', seed'), (outL, outR) # fs)"
    "render_frames dt qs i (Suc n) (su, seed2) = Inr ((su', seed''), (outL', outR') # gs)"
    by (simp_all add: s1 u1 r)
  then show ?case using r(3) by blast
qed

lemma next_smoothGain_explicit:
  "next_smoothGain p st = smoothGain st + 0.075 * (targetGain p - smoothGain st)"
  by (simp add: next_smoothGain_def smooth_step_def gainSmoothCoeff_def)

lemma synth_dry_explicit:
  "(let st1 = update_oscillators dt p st;
        w = waveform (mode p) (phaseA st1) (phaseB st1) seed;
        g = (if mute p then 0 else smoothGain st + 0.075 * (targetGain p - smoothGain st))
    in synth_dry dt p (st, seed) = (st1, snd w, fst w * g, fst w * g))"
  by (simp add: Let_def synth_dry_eq applied_gain_def update_oscillators_fields
      next_smoothGain_explicit)

lemma render_sample_muted:
  assumes "delay_ok st"
  shows "\<exists>st' seed' outL outR.
     render_sample dt p (st, seed) = Inr ((st', seed'), outL, outR)
     \<and> smoothGain st' = smoothGain st + 0.075 * (targetGain p - smoothGain st)
     \<and> (mute p \<longrightarrow> outL = 0.15 * (delayBufR st ! delayIndex st)
                  \<and> outR = 0.15 * (delayBufL st ! delayIndex st))"
proof -
  obtain st1 seed1 dryL dryR where d: "synth_dry dt p (st, seed) = (st1, seed1, dryL, dryR)"
    by (metis prod_cases4)
  have b: "delayIndex st < length (delayBufL st)" "delayIndex st < length (delayBufR st)"
    using assms by (simp_all add: delay_ok_def)
  have st1: "st1 = update_oscillators dt p st"
    using d by (simp add: synth_dry_eq)
  have dry: "mute p \<longrightarrow> dryL = 0 \<and> dryR = 0"
    using d by (auto simp: synth_dry_eq applied_gain_def)
  show ?thesis
    unfolding render_sample_in_bounds [OF b d]
    using dry by (simp add: st1 update_oscillators_fields next_smoothGain_explicit)
qed

text \<open>
  C3 as stated fails in its last part: on an unmuted sample the applied gain is not the
  smoothed level that was there before the sample. With a pre-existing smoothed gain of
  \<open>1/2\<close> and a gain target of 1, the sample's own smoothing step comes first (line 186)
  and the gain applied (line 230) is \<open>1/2 + 0.075 * (1 - 1/2) = 0.5375\<close>: the dry
  samples are \<open>0.5375\<close> times the waveform sample, which is not zero.
\<close>

theorem unmute_gain_counterexample:
  "\<not> mute (gParams\<lparr>targetGain := 1\<rparr>)
   \<and> smoothGain (gSynth\<lparr>smoothGain := 1 / 2\<rparr>) = 1 / 2
   \<and> synth_dry (1 / 48000) (gParams\<lparr>targetGain := 1\<rparr>)
        (gSynth\<lparr>smoothGain := 1 / 2\<rparr>, noise_seed0)
      = (update_oscillators (1 / 48000) (gParams\<lparr>targetGain := 1\<rparr>)
           (gSynth\<lparr>smoothGain := 1 / 2\<rparr>),
         noise_seed0,
         sin (kTwoPi * 440 / 48000) * 0.5375,
         sin (kTwoPi * 440 / 48000) * 0.5375)
   \<and> 0 < sin (kTwoPi * 440 / 48000)
   \<and> sin (kTwoPi * 440 / 48000) * 0.5375
       \<noteq> sin (kTwoPi * 440 / 48000) * smoothGain (gSynth\<lparr>smoothGain := 1 / 2\<rparr>)
   \<and> applied_gain (gParams\<lparr>targetGain := 1\<rparr>)
        (update_oscillators (1 / 48000) (gParams\<lparr>targetGain := 1\<rparr>)
           (gSynth\<lparr>smoothGain := 1 / 2\<rparr>)) = 0.5375"
proof -
  let ?p = "gParams\<lparr>targetGain := 1\<rparr>"
  let ?st = "gSynth\<lparr>smoothGain := 1 / 2\<rparr>"
  have s: "0 < sin (kTwoPi * 440 / 48000)"
  proof (rule sin_gt_zero)
    show "0 < kTwoPi * 440 / 48000" by (simp add: kTwoPi_def)
    have "kTwoPi * 440 / 48000 < 2" by (simp add: kTwoPi_def)
    then show "kTwoPi * 440 / 48000 < pi" using pi_ge_two by linarith
  qed
  have a: "phaseA (update_oscillators (1 / 48000) ?p ?st) = kTwoPi * 440 / 48000"
    by (simp add: update_oscillators_fields incA_def carrier_hz_def vibrato_def
        next_smoothHz_def smooth_step_def wrap_phase_def gParams_def gSynth_def kTwoPi_def)
  have g: "applied_gain ?p (update_oscillators (1 / 48000) ?p ?st) = 0.5375"
    by (simp add: applied_gain_def update_oscillators_fields next_smoothGain_explicit
        gParams_def gSynth_def)
  have m: "mode ?p = 1" "\<not> mute ?p" by (simp_all add: gParams_def)
  have d: "synth_dry (1 / 48000) ?p (?st, noise_seed0)
      = (update_oscillators (1 / 48000) ?p ?st, noise_seed0,
         sin (kTwoPi * 440 / 48000) * 0.5375, sin (kTwoPi * 440 / 48000) * 0.5375)"
    unfolding synth_dry_eq g m(1) waveform_mode1 a by (simp add: sine_def)
  have l: "smoothGain ?st = 1 / 2" by simp
  have ne: "sin (kTwoPi * 440 / 48000) * 0.5375
       \<noteq> sin (kTwoPi * 440 / 48000) * smoothGain ?st"
    using s by simp
  show ?thesis
    by (intro conjI) (rule m(2) l d s ne g)+
qed

text \<open>
  C3, amended. In a sample synthesized with the mute flag set, the applied gain is 0
  and both dry samples are 0, whatever the smoothed gain is, so the frame written is
  only the crossfeed of the delay lines. The mute flag does not reset or alter the
  smoothed gain: muted or not, every sample replaces it by
  \<open>level + 0.075 * (target - level)\<close>, so over any number of frames it follows the same
  trajectory whatever the mute flags were. In a sample with the flag clear, the gain
  applied is the smoothed gain after that sample's own smoothing step,
  \<open>level + 0.075 * (target - level)\<close> for the pre-existing level, and the dry samples
  are the waveform sample times that gain: it continues from the pre-existing level
  and does not restart from zero.
\<close>

theorem mute_gain_override:
  "(let st1 = update_oscillators dt p st;
        w = waveform (mode p) (phaseA st1) (phaseB st1) seed;
        g = (if mute p then 0 else smoothGain st + 0.075 * (targetGain p - smoothGain st))
    in synth_dry dt p (st, seed) = (st1, snd w, fst w * g, fst w * g))
   \<and> smoothGain (update_oscillators dt p st)
       = smoothGain st + 0.075 * (targetGain p - smoothGain st)
   \<and> (mute p \<longrightarrow>
        (\<exists>st1 seed1. synth_dry dt p (st, seed) = (st1, seed1, 0, 0)
           \<and> smoothGain st1 = smoothGain st + 0.075 * (targetGain p - smoothGain st)))
   \<and> update_oscillators dt (p\<lparr>mute := True\<rparr>) st = update_oscillators dt (p\<lparr>mute := False\<rparr>) st
   \<and> (delay_ok st \<longrightarrow>
        (\<exists>st' seed' outL outR.
           render_sample dt p (st, seed) = Inr ((st', seed'), outL, outR)
           \<and> smoothGain st' = smoothGain st + 0.075 * (targetGain p - smoothGain st)
           \<and> (mute p \<longrightarrow> outL = 0.15 * (delayBufR st ! delayIndex st)
                        \<and> outR = 0.15 * (delayBufL st ! delayIndex st))))
   \<and> (delay_ok st \<and> delay_ok su \<and> smoothGain su = smoothGain st
        \<and> (\<forall>j. targetGain (qs j) = targetGain (ps j)) \<longrightarrow>
        (\<exists>st' seed' fs su' seed'' gs.
           render_frames dt ps i n (st, seed) = Inr ((st', seed'), fs)
           \<and> render_frames dt qs i n (su, seed2) = Inr ((su', seed''), gs)
           \<and> smoothGain su' = smoothGain st'))"
proof (intro conjI impI)
  show "let st1 = update_oscillators dt p st;
        w = waveform (mode p) (phaseA st1) (phaseB st1) seed;
        g = (if mute p then 0 else smoothGain st + 0.075 * (targetGain p - smoothGain st))
    in synth_dry dt p (st, seed) = (st1, snd w, fst w * g, fst w * g)"
    by (rule synth_dry_explicit)
next
  show "smoothGain (update_oscillators dt p st)
       = smoothGain st + 0.075 * (targetGain p - smoothGain st)"
    by (simp add: update_oscillators_fields next_smoothGain_explicit)
next
  assume "mute p"
  then have "synth_dry dt p (st, seed) =
      (update_oscillators dt p st,
       snd (waveform (mode p) (phaseA (update_oscillators dt p st))
              (phaseB (update_oscillators dt p st)) seed), 0, 0)"
    by (simp add: synth_dry_eq applied_gain_def)
  moreover have "smoothGain (update_oscillators dt p st)
       = smoothGain st + 0.075 * (targetGain p - smoothGain st)"
    by (simp add: update_oscillators_fields next_smoothGain_explicit)
  ultimately show "\<exists>st1 seed1. synth_dry dt p (st, seed) = (st1, seed1, 0, 0)
           \<and> smoothGain st1 = smoothGain st + 0.075 * (targetGain p - smoothGain st)"
    by blast
next
  show "update_oscillators dt (p\<lparr>mute := True\<rparr>) st = update_oscillators dt (p\<lparr>mute := False\<rparr>) st"
    by (simp only: update_oscillators_mute)
next
  assume "delay_ok st"
  then show "\<exists>st' seed' outL outR.
           render_sample dt p (st, seed) = Inr ((st', seed'), outL, outR)
           \<and> smoothGain st' = smoothGain st + 0.075 * (targetGain p - smoothGain st)
           \<and> (mute p \<longrightarrow> outL = 0.15 * (delayBufR st ! delayIndex st)
                        \<and> outR = 0.15 * (delayBufL st ! delayIndex st))"
    by (rule render_sample_muted)
next
  assume "delay_ok st \<and> delay_ok su \<and> smoothGain su = smoothGain st
        \<and> (\<forall>j. targetGain (qs j) = targetGain (ps j))"
  then show "\<exists>st' seed' fs su' seed'' gs.
           render_frames dt ps i n (st, seed) = Inr ((st', seed'), fs)
           \<and> render_frames dt qs i n (su, seed2) = Inr ((su', seed''), gs)
           \<and> smoothGain su' = smoothGain st'"
    using smoothGain_run_independent_of_mute [of st su qs ps dt i n seed seed2] by blast
qed


theorem mute_gain_override_witness:
  "mute (gParams\<lparr>targetGain := 1, mute := True\<rparr>)
   \<and> (\<exists>st1 seed1.
        synth_dry (1 / 48000) (gParams\<lparr>targetGain := 1, mute := True\<rparr>)
          (gSynth\<lparr>smoothGain := 1 / 2, delayBufL := [2], delayBufR := [4]\<rparr>, noise_seed0)
          = (st1, seed1, 0, 0)
        \<and> smoothGain st1 = 0.5375)
   \<and> delay_ok (gSynth\<lparr>smoothGain := 1 / 2, delayBufL := [2], delayBufR := [4]\<rparr>)
   \<and> (\<exists>st' seed'.
        render_sample (1 / 48000) (gParams\<lparr>targetGain := 1, mute := True\<rparr>)
          (gSynth\<lparr>smoothGain := 1 / 2, delayBufL := [2], delayBufR := [4]\<rparr>, noise_seed0)
          = Inr ((st', seed'), 0.6, 0.3)
        \<and> smoothGain st' = 0.5375)
   \<and> (\<forall>j. targetGain ((\<lambda>j. gParams\<lparr>targetGain := 1\<rparr>) j)
          = targetGain ((\<lambda>j. gParams\<lparr>targetGain := 1, mute := True\<rparr>) j))
   \<and> (\<exists>st' seed' fs su' seed'' gs.
         render_frames (1 / 48000) (\<lambda>j. gParams\<lparr>targetGain := 1, mute := True\<rparr>) 0 2
           (gSynth\<lparr>smoothGain := 1 / 2, delayBufL := [2], delayBufR := [4]\<rparr>, noise_seed0)
           = Inr ((st', seed'), fs)
         \<and> render_frames (1 / 48000) (\<lambda>j. gParams\<lparr>targetGain := 1\<rparr>) 0 2
           (gSynth\<lparr>smoothGain := 1 / 2, delayBufL := [2], delayBufR := [4]\<rparr>, noise_seed0)
           = Inr ((su', seed''), gs)
         \<and> smoothGain su' = smoothGain st')"
proof -
  let ?st = "gSynth\<lparr>smoothGain := 1 / 2, delayBufL := [2], delayBufR := [4]\<rparr>"
  let ?pm = "gParams\<lparr>targetGain := 1, mute := True\<rparr>"
  let ?pu = "gParams\<lparr>targetGain := 1\<rparr>"
  note t = mute_gain_override
    [of "1 / 48000" ?pm ?st noise_seed0 ?st "\<lambda>j. ?pu" "\<lambda>j. ?pm" 0 2 noise_seed0]
  have m: "mute ?pm" by (simp add: gParams_def)
  have ok: "delay_ok ?st" by (simp add: delay_ok_def gSynth_def)
  have tg: "\<forall>j. targetGain ((\<lambda>j. ?pu) j) = targetGain ((\<lambda>j. ?pm) j)" by simp
  have v: "smoothGain ?st + 0.075 * (targetGain ?pm - smoothGain ?st) = 0.5375"
    by (simp add: gSynth_def)
  have d: "delayBufR ?st ! delayIndex ?st = 4" "delayBufL ?st ! delayIndex ?st = 2"
    by (simp_all add: gSynth_def)
  have c1: "\<exists>st1 seed1. synth_dry (1 / 48000) ?pm (?st, noise_seed0) = (st1, seed1, 0, 0)
        \<and> smoothGain st1 = 0.5375"
    using t [THEN conjunct2, THEN conjunct2, THEN conjunct1] m unfolding v by blast
  obtain st' seed' outL outR where r:
    "render_sample (1 / 48000) ?pm (?st, noise_seed0) = Inr ((st', seed'), outL, outR)"
    "smoothGain st' = 0.5375"
    "mute ?pm \<longrightarrow> outL = 0.15 * 4 \<and> outR = 0.15 * 2"
    using t [THEN conjunct2, THEN conjunct2, THEN conjunct2, THEN conjunct2, THEN conjunct1]
      ok unfolding v d by blast
  have "outL = 0.6" "outR = 0.3" using r(3) m by simp_all
  then have c2: "\<exists>st' seed'.
        render_sample (1 / 48000) ?pm (?st, noise_seed0) = Inr ((st', seed'), 0.6, 0.3)
        \<and> smoothGain st' = 0.5375"
    using r(1,2) by blast
  have h: "delay_ok ?st \<and> delay_ok ?st \<and> smoothGain ?st = smoothGain ?st
      \<and> (\<forall>j. targetGain ((\<lambda>j. ?pu) j) = targetGain ((\<lambda>j. ?pm) j))"
    using ok by simp
  have c3: "\<exists>st' seed' fs su' seed'' gs.
         render_frames (1 / 48000) (\<lambda>j. ?pm) 0 2 (?st, noise_seed0) = Inr ((st', seed'), fs)
         \<and> render_frames (1 / 48000) (\<lambda>j. ?pu) 0 2 (?st, noise_seed0) = Inr ((su', seed''), gs)
         \<and> smoothGain su' = smoothGain st'"
    by (rule mp [OF t [THEN conjunct2, THEN conjunct2, THEN conjunct2, THEN conjunct2,
            THEN conjunct2] h])
  show ?thesis
    by (intro conjI) (rule m c1 ok c2 tg c3)+
qed

subsection \<open>The render loop on an empty wake-up\<close>

text \<open>
  C9. In a pass of the render loop in which the wait is signalled, the padding is read
  and \<open>bufferFrames - padding\<close> is zero, nothing is synthesized: no frame is written and
  the synth state (phases, smoothed frequency and gain, vibrato phase, delay buffers
  and cursor) and the noise seed are what they were; the pass ends with \<^verbatim>\<open>continue\<close>,
  so the loop goes on with the next wake-up and is still running if none follows.
\<close>

theorem zero_frames_is_noop:
  assumes "signaled r" and "\<not> paddingFailed r" and "bufferFrames - padding r = 0"
  shows "render_iteration bufferFrames dt r ps s = Inr (Continue, s, [])
    \<and> audio_loop bufferFrames dt ((True, r, ps) # evs) s = audio_loop bufferFrames dt evs s
    \<and> audio_loop bufferFrames dt [(True, r, ps)] s = Inr (Running, s)"
proof -
  have it: "render_iteration bufferFrames dt r ps s = Inr (Continue, s, [])"
    using assms by (simp add: render_iteration_def)
  then show ?thesis by simp
qed

theorem zero_frames_is_noop_witness:
  "signaled \<lparr>signaled = True, paddingFailed = False, padding = 960,
       getBufferFailed = False, releaseFailed = False\<rparr>
   \<and> \<not> paddingFailed \<lparr>signaled = True, paddingFailed = False, padding = 960,
       getBufferFailed = False, releaseFailed = False\<rparr>
   \<and> (960 :: 32 word) - padding \<lparr>signaled = True, paddingFailed = False, padding = 960,
       getBufferFailed = False, releaseFailed = False\<rparr> = 0
   \<and> render_iteration 960 (1 / 48000)
        \<lparr>signaled = True, paddingFailed = False, padding = 960,
          getBufferFailed = False, releaseFailed = False\<rparr>
        (\<lambda>j. gParams) (audio_thread_init 48000 gSynth, noise_seed0)
      = Inr (Continue, (audio_thread_init 48000 gSynth, noise_seed0), [])
   \<and> audio_loop 960 (1 / 48000)
        [(True, \<lparr>signaled = True, paddingFailed = False, padding = 960,
                 getBufferFailed = False, releaseFailed = False\<rparr>, \<lambda>j. gParams)]
        (audio_thread_init 48000 gSynth, noise_seed0)
      = Inr (Running, (audio_thread_init 48000 gSynth, noise_seed0))"
proof -
  let ?r = "\<lparr>signaled = True, paddingFailed = False, padding = 960 :: 32 word,
       getBufferFailed = False, releaseFailed = False\<rparr>"
  have a: "signaled ?r" and b: "\<not> paddingFailed ?r" and c: "(960 :: 32 word) - padding ?r = 0"
    by simp_all
  note t = zero_frames_is_noop [OF a b c, of "1 / 48000" "\<lambda>j. gParams"
      "(audio_thread_init 48000 gSynth, noise_seed0)" "[]"]
  show ?thesis
    by (intro conjI) (rule a b c t [THEN conjunct1] t [THEN conjunct2, THEN conjunct2])+
qed

subsection \<open>Control input\<close>

lemma clamped_unit: "0 \<le> max 0 (min 1 (v::real))" "max 0 (min 1 (v::real)) \<le> 1"
  by simp_all

lemma map_x_to_hz_range: "100 \<le> map_x_to_hz x w \<and> map_x_to_hz x w \<le> 2000"
proof (cases "w \<le> 0")
  case True
  then show ?thesis by (simp add: map_x_to_hz_def)
next
  case False
  define nx where "nx = max 0 (min 1 (real_of_int x / real_of_int w))"
  have nx: "0 \<le> nx" "nx \<le> 1"
    unfolding nx_def by (rule clamped_unit)+
  have lo: "1 \<le> (20::real) powr nx"
    using nx(1) by (intro ge_one_powr_ge_zero) simp_all
  have "(20::real) powr nx \<le> 20 powr 1"
    using nx(2) by (intro powr_mono) simp_all
  then have hi: "(20::real) powr nx \<le> 20" by simp
  have "map_x_to_hz x w = 100 * (20 powr nx)"
    using False by (simp add: map_x_to_hz_def Let_def kMinHz_def kMaxHz_def nx_def)
  then show ?thesis using lo hi by simp
qed

lemma map_y_to_gain_range: "0 \<le> map_y_to_gain y h \<and> map_y_to_gain y h \<le> 1"
  by (simp add: map_y_to_gain_def Let_def)

text \<open>
  C7. For every mouse coordinate and every width and height of the window (positive or
  not), \<open>map_x_to_hz\<close> gives a frequency in \<open>[100, 2000]\<close> and \<open>map_y_to_gain\<close> a gain in
  \<open>[0, 1]\<close>; these are the values the mouse handler stores as targets, so the stored
  frequency and gain targets are always in range. The functions are total: no input is
  rejected.
\<close>

theorem control_targets_clamped:
  "100 \<le> map_x_to_hz x w \<and> map_x_to_hz x w \<le> 2000
   \<and> 0 \<le> map_y_to_gain y h \<and> map_y_to_gain y h \<le> 1
   \<and> targetHz (on_mousemove x y w h shift p) = map_x_to_hz x w
   \<and> targetGain (on_mousemove x y w h shift p) = map_y_to_gain y h
   \<and> kMinHz \<le> targetHz (on_mousemove x y w h shift p)
   \<and> targetHz (on_mousemove x y w h shift p) \<le> kMaxHz
   \<and> 0 \<le> targetGain (on_mousemove x y w h shift p)
   \<and> targetGain (on_mousemove x y w h shift p) \<le> 1"
  using map_x_to_hz_range [of x w] map_y_to_gain_range [of y h]
  by (simp add: on_mousemove_def Let_def kMinHz_def kMaxHz_def)

theorem control_targets_clamped_witness:
  "map_x_to_hz 900 900 = 2000 \<and> map_x_to_hz (- 5) 900 = 100
   \<and> map_y_to_gain 400 300 = 0 \<and> map_y_to_gain 75 300 = 3 / 4
   \<and> 100 \<le> map_x_to_hz 450 900 \<and> map_x_to_hz 450 900 \<le> 2000
   \<and> 0 \<le> targetGain (on_mousemove 450 75 900 300 True gParams)
   \<and> targetGain (on_mousemove 450 75 900 300 True gParams) \<le> 1"
proof -
  have e: "map_x_to_hz 900 900 = 2000" "map_x_to_hz (- 5) 900 = 100"
    "map_y_to_gain 400 300 = 0" "map_y_to_gain 75 300 = 3 / 4"
    by (simp_all add: map_x_to_hz_def map_y_to_gain_def Let_def kMinHz_def kMaxHz_def)
  show ?thesis
    using control_targets_clamped [of 450 900 75 300 True gParams] e by simp
qed

subsection \<open>Vibrato and the oscillator increments\<close>

lemma vibrato_eq:
  assumes "0 \<le> vibratoDepth p"
  shows "vibrato dt p st = 0.01 * vibratoDepth p * sin (next_vibratoPhase dt st)"
  using assms by (cases "vibratoDepth p = 0") (simp_all add: vibrato_def Let_def)

lemma vibrato_abs_le:
  assumes "0 \<le> vibratoDepth p" and "vibratoDepth p \<le> 1"
  shows "\<bar>vibrato dt p st\<bar> \<le> 0.01"
proof -
  have "\<bar>vibratoDepth p * sin (next_vibratoPhase dt st)\<bar> \<le> 1 * 1"
    unfolding abs_mult using assms by (intro mult_mono) simp_all
  then have "\<bar>0.01 * (vibratoDepth p * sin (next_vibratoPhase dt st))\<bar> \<le> 0.01"
    by (simp; argo)
  then show ?thesis
    by (simp add: vibrato_eq [OF assms(1)] mult.assoc)
qed

lemma wrap_phase_turns:
  "\<exists>j::nat. j \<le> 1 \<and> wrap_phase x = x - real j * kTwoPi"
proof (cases "x \<ge> kTwoPi")
  case True
  then have "wrap_phase x = x - real 1 * kTwoPi" by (simp add: wrap_phase_def)
  then show ?thesis by blast
next
  case False
  then have "wrap_phase x = x - real 0 * kTwoPi" by (simp add: wrap_phase_def)
  then show ?thesis by blast
qed

lemma vibrato_phase_run:
  assumes "delay_ok st"
  shows "\<exists>st' seed' frames k.
     render_frames dt ps i n (st, seed) = Inr ((st', seed'), frames)
     \<and> k \<le> n
     \<and> vibratoPhase st' = vibratoPhase st + real n * (kTwoPi * 5.5 * dt) - real k * kTwoPi"
  using assms
proof (induction n arbitrary: i st seed)
  case 0
  then show ?case by simp
next
  case (Suc n)
  obtain st1 seed1 outL outR where
    s1: "render_sample dt (ps i) (st, seed) = Inr ((st1, seed1), outL, outR)"
    and ok1: "delay_ok st1"
    and v1: "vibratoPhase st1 = vibratoPhase (update_oscillators dt (ps i) st)"
    using render_sample_total [OF Suc.prems, of dt "ps i" seed] by blast
  obtain j :: nat where j: "j \<le> 1"
    "wrap_phase (vibratoPhase st + kTwoPi * 5.5 * dt)
       = vibratoPhase st + kTwoPi * 5.5 * dt - real j * kTwoPi"
    using wrap_phase_turns [of "vibratoPhase st + kTwoPi * 5.5 * dt"] by blast
  have v1': "vibratoPhase st1 = vibratoPhase st + kTwoPi * 5.5 * dt - real j * kTwoPi"
    using v1 j(2) by (simp add: update_oscillators_fields next_vibratoPhase_def vibrato_inc_def)
  obtain st' seed' frames k where
    r: "render_frames dt ps (Suc i) n (st1, seed1) = Inr ((st', seed'), frames)"
    and k: "k \<le> n"
    and v: "vibratoPhase st' = vibratoPhase st1 + real n * (kTwoPi * 5.5 * dt) - real k * kTwoPi"
    using Suc.IH [OF ok1, of "Suc i" seed1] by blast
  have f: "render_frames dt ps i (Suc n) (st, seed) = Inr ((st', seed'), (outL, outR) # frames)"
    by (simp add: s1 r)
  have kj: "k + j \<le> Suc n" using k j(1) by simp
  have "vibratoPhase st'
      = vibratoPhase st + real (Suc n) * (kTwoPi * 5.5 * dt) - real (k + j) * kTwoPi"
    unfolding v v1' by (simp add: algebra_simps)
  then show ?case using f kj by blast
qed

text \<open>
  C8. At every sample, with a vibrato depth that is not negative, the carrier frequency
  is \<open>smoothedHz * (1 + 0.01 * depth * sin vibratoPhase)\<close>, where \<open>smoothedHz\<close> is the
  smoothed frequency \<open>old + 0.05 * (target - old)\<close> and \<open>vibratoPhase\<close> the vibrato phase
  the sample has just updated. The vibrato phase advances by \<open>kTwoPi * 5.5 * dt\<close> per
  sample, less one turn \<open>kTwoPi = 6.28318530717958647692\<close> when it reaches a turn: 5.5
  turns per second whatever the targets and the state, so that after \<open>n\<close> frames it has
  advanced by \<open>n * kTwoPi * 5.5 * dt\<close> less a whole number of turns. Depth 0 gives the
  smoothed frequency itself, a depth in \<open>[0, 1]\<close> an excursion of at most 1 percent of
  it. The carrier phase advances by \<open>kTwoPi * hz * dt\<close> and the modulator phase by
  \<open>kTwoPi * (hz * 1.997) * dt\<close>, the increment of a frequency 1.997 times the carrier's,
  each less one turn when it reaches a turn.
\<close>

theorem vibrato_and_modulator_ratio:
  assumes "0 \<le> vibratoDepth p"
  shows "kTwoPi = 6.28318530717958647692
    \<and> (let sHz = smoothHz st + 0.05 * (targetHz p - smoothHz st);
            v = vibratoPhase st + kTwoPi * 5.5 * dt;
            vp = (if v \<ge> kTwoPi then v - kTwoPi else v);
            hz = sHz * (1 + 0.01 * vibratoDepth p * sin vp);
            a = phaseA st + kTwoPi * hz * dt;
            b = phaseB st + kTwoPi * (hz * 1.997) * dt
        in smoothHz (update_oscillators dt p st) = sHz
         \<and> vibratoPhase (update_oscillators dt p st) = vp
         \<and> carrier_hz dt p st = hz
         \<and> incA dt p st = kTwoPi * hz * dt
         \<and> incB dt p st = kTwoPi * (hz * 1.997) * dt
         \<and> incB dt p st = 1.997 * incA dt p st
         \<and> phaseA (update_oscillators dt p st) = (if a \<ge> kTwoPi then a - kTwoPi else a)
         \<and> phaseB (update_oscillators dt p st) = (if b \<ge> kTwoPi then b - kTwoPi else b)
         \<and> (vibratoDepth p = 0 \<longrightarrow> hz = sHz)
         \<and> (vibratoDepth p \<le> 1 \<longrightarrow> \<bar>hz - sHz\<bar> \<le> 0.01 * \<bar>sHz\<bar>))
    \<and> (delay_ok st \<longrightarrow>
         (\<exists>st' seed' frames k.
            render_frames dt ps i n (st, seed) = Inr ((st', seed'), frames)
            \<and> k \<le> n
            \<and> vibratoPhase st'
                = vibratoPhase st + real n * (kTwoPi * 5.5 * dt) - real k * kTwoPi))"
proof -
  define sHz where "sHz = smoothHz st + 0.05 * (targetHz p - smoothHz st)"
  define v where "v = vibratoPhase st + kTwoPi * 5.5 * dt"
  define vp where "vp = (if v \<ge> kTwoPi then v - kTwoPi else v)"
  define hz where "hz = sHz * (1 + 0.01 * vibratoDepth p * sin vp)"
  define a where "a = phaseA st + kTwoPi * hz * dt"
  define b where "b = phaseB st + kTwoPi * (hz * 1.997) * dt"
  have s: "next_smoothHz p st = sHz"
    by (simp add: next_smoothHz_def smooth_step_def hzSmoothCoeff_def sHz_def)
  have n: "next_vibratoPhase dt st = vp"
    by (simp add: next_vibratoPhase_def vibrato_inc_def wrap_phase_def vp_def v_def)
  have c: "carrier_hz dt p st = hz"
    unfolding carrier_hz_def vibrato_eq [OF assms] s n hz_def by simp
  have ia: "incA dt p st = kTwoPi * hz * dt" by (simp add: incA_def c)
  have ib: "incB dt p st = kTwoPi * (hz * 1.997) * dt" by (simp add: incB_def c)
  have r: "incB dt p st = 1.997 * incA dt p st" by (simp add: ia ib)
  have pa: "phaseA (update_oscillators dt p st) = (if a \<ge> kTwoPi then a - kTwoPi else a)"
    by (simp add: update_oscillators_fields ia wrap_phase_def a_def)
  have pb: "phaseB (update_oscillators dt p st) = (if b \<ge> kTwoPi then b - kTwoPi else b)"
    by (simp add: update_oscillators_fields ib wrap_phase_def b_def)
  have z: "vibratoDepth p = 0 \<longrightarrow> hz = sHz" by (simp add: hz_def)
  have e: "vibratoDepth p \<le> 1 \<longrightarrow> \<bar>hz - sHz\<bar> \<le> 0.01 * \<bar>sHz\<bar>"
  proof
    assume le: "vibratoDepth p \<le> 1"
    have "\<bar>vibrato dt p st\<bar> \<le> 0.01" by (rule vibrato_abs_le [OF assms le])
    then have m: "\<bar>0.01 * vibratoDepth p * sin vp\<bar> \<le> 0.01"
      by (simp only: vibrato_eq [OF assms] n)
    have "hz - sHz = sHz * (0.01 * vibratoDepth p * sin vp)"
      by (simp add: hz_def algebra_simps)
    then have "\<bar>hz - sHz\<bar> = \<bar>sHz\<bar> * \<bar>0.01 * vibratoDepth p * sin vp\<bar>"
      by (simp only: abs_mult)
    also have "\<dots> \<le> \<bar>sHz\<bar> * 0.01"
      by (intro mult_left_mono m) simp
    finally show "\<bar>hz - sHz\<bar> \<le> 0.01 * \<bar>sHz\<bar>" by (simp add: mult.commute)
  qed
  have k: "kTwoPi = 6.28318530717958647692" by (simp add: kTwoPi_def)
  have f: "smoothHz (update_oscillators dt p st) = sHz"
    "vibratoPhase (update_oscillators dt p st) = vp"
    by (simp_all add: update_oscillators_fields s n)
  have inner: "let sHz = smoothHz st + 0.05 * (targetHz p - smoothHz st);
            v = vibratoPhase st + kTwoPi * 5.5 * dt;
            vp = (if v \<ge> kTwoPi then v - kTwoPi else v);
            hz = sHz * (1 + 0.01 * vibratoDepth p * sin vp);
            a = phaseA st + kTwoPi * hz * dt;
            b = phaseB st + kTwoPi * (hz * 1.997) * dt
        in smoothHz (update_oscillators dt p st) = sHz
         \<and> vibratoPhase (update_oscillators dt p st) = vp
         \<and> carrier_hz dt p st = hz
         \<and> incA dt p st = kTwoPi * hz * dt
         \<and> incB dt p st = kTwoPi * (hz * 1.997) * dt
         \<and> incB dt p st = 1.997 * incA dt p st
         \<and> phaseA (update_oscillators dt p st) = (if a \<ge> kTwoPi then a - kTwoPi else a)
         \<and> phaseB (update_oscillators dt p st) = (if b \<ge> kTwoPi then b - kTwoPi else b)
         \<and> (vibratoDepth p = 0 \<longrightarrow> hz = sHz)
         \<and> (vibratoDepth p \<le> 1 \<longrightarrow> \<bar>hz - sHz\<bar> \<le> 0.01 * \<bar>sHz\<bar>)"
    unfolding Let_def
    using f c ia ib r pa pb z e
    unfolding sHz_def v_def vp_def hz_def a_def b_def
    by (intro conjI)
  have run: "delay_ok st \<longrightarrow>
         (\<exists>st' seed' frames k.
            render_frames dt ps i n (st, seed) = Inr ((st', seed'), frames)
            \<and> k \<le> n
            \<and> vibratoPhase st'
                = vibratoPhase st + real n * (kTwoPi * 5.5 * dt) - real k * kTwoPi)"
    using vibrato_phase_run [of st dt ps i n seed] by blast
  show ?thesis
    by (intro conjI) (rule k inner run)+
qed


theorem vibrato_and_modulator_ratio_witness:
  "0 \<le> vibratoDepth (gParams\<lparr>vibratoDepth := 1\<rparr>)
   \<and> vibratoPhase (update_oscillators (1 / 48000) (gParams\<lparr>vibratoDepth := 1\<rparr>) gSynth)
       = kTwoPi * 5.5 / 48000
   \<and> carrier_hz (1 / 48000) (gParams\<lparr>vibratoDepth := 1\<rparr>) gSynth
       = 440 * (1 + 0.01 * sin (kTwoPi * 5.5 / 48000))
   \<and> 440 < carrier_hz (1 / 48000) (gParams\<lparr>vibratoDepth := 1\<rparr>) gSynth
   \<and> phaseB (update_oscillators (1 / 48000) (gParams\<lparr>vibratoDepth := 1\<rparr>) gSynth)
       = kTwoPi * (440 * (1 + 0.01 * sin (kTwoPi * 5.5 / 48000)) * 1.997) / 48000
   \<and> vibratoPhase (update_oscillators (1 / 48000) (gParams\<lparr>vibratoDepth := 1\<rparr>)
        (gSynth\<lparr>vibratoPhase := 6.283\<rparr>))
       = 6.283 + kTwoPi * 5.5 / 48000 - kTwoPi
   \<and> delay_ok (audio_thread_init 48000 gSynth)
   \<and> (\<exists>st' seed' frames k.
        render_frames (1 / 48000) (\<lambda>j. gParams\<lparr>vibratoDepth := 1\<rparr>) 0 3
          (audio_thread_init 48000 gSynth, noise_seed0) = Inr ((st', seed'), frames)
        \<and> k \<le> 3
        \<and> vibratoPhase st'
            = vibratoPhase (audio_thread_init 48000 gSynth)
              + real 3 * (kTwoPi * 5.5 * (1 / 48000)) - real k * kTwoPi)"
proof -
  let ?p = "gParams\<lparr>vibratoDepth := 1\<rparr>"
  let ?x = "kTwoPi * 5.5 / 48000"
  have h: "0 \<le> vibratoDepth ?p" by simp
  note t1 = vibrato_and_modulator_ratio [OF h, of gSynth "1 / 48000" "\<lambda>j. ?p" 0 3 noise_seed0]
  note t2 = vibrato_and_modulator_ratio
    [OF h, of "gSynth\<lparr>vibratoPhase := 6.283\<rparr>" "1 / 48000" "\<lambda>j. ?p" 0 3 noise_seed0]
  note t3 = vibrato_and_modulator_ratio
    [OF h, of "audio_thread_init 48000 gSynth" "1 / 48000" "\<lambda>j. ?p" 0 3 noise_seed0]
  have x: "0 < ?x" "?x < 2" by (simp_all add: kTwoPi_def)
  then have "?x < pi" using pi_ge_two by linarith
  then have s: "0 < sin ?x" using x(1) by (intro sin_gt_zero)
  have nw: "\<not> kTwoPi \<le> ?x" by (simp add: kTwoPi_def)
  have v1: "vibratoPhase (update_oscillators (1 / 48000) ?p gSynth) = ?x"
    using t1 [THEN conjunct2, THEN conjunct1] nw by (simp add: Let_def gSynth_def)
  have sm: "smoothHz gSynth + 0.05 * (targetHz ?p - smoothHz gSynth) = 440"
    by (simp add: gSynth_def gParams_def)
  have c1: "carrier_hz (1 / 48000) ?p gSynth = 440 * (1 + 0.01 * sin ?x)"
    using t1 [THEN conjunct2, THEN conjunct1] nw sm by (simp add: Let_def gSynth_def)
  have c2: "440 < carrier_hz (1 / 48000) ?p gSynth"
    unfolding c1 using s by simp
  have sb: "sin ?x \<le> 1" by (rule sin_le_one)
  have "kTwoPi * (440 * (1 + 0.01 * sin ?x) * 1.997) / 48000
      \<le> kTwoPi * (440 * (1 + 0.01 * 1) * 1.997) / 48000"
    using sb by (simp add: kTwoPi_def)
  also have "\<dots> < kTwoPi" by (simp add: kTwoPi_def)
  finally have nb: "\<not> kTwoPi \<le> kTwoPi * (440 * (1 + 0.01 * sin ?x) * 1.997) / 48000"
    by simp
  have pb: "phaseB (update_oscillators (1 / 48000) ?p gSynth)
       = kTwoPi * (440 * (1 + 0.01 * sin ?x) * 1.997) / 48000"
  proof -
    have "phaseB (update_oscillators (1 / 48000) ?p gSynth)
        = wrap_phase (phaseB gSynth + incB (1 / 48000) ?p gSynth)"
      by (simp add: update_oscillators_fields)
    also have "incB (1 / 48000) ?p gSynth
        = kTwoPi * (440 * (1 + 0.01 * sin ?x) * 1.997) / 48000"
      by (simp add: incB_def c1)
    finally show ?thesis using nb by (simp add: wrap_phase_def gSynth_def)
  qed
  have w: "kTwoPi \<le> 6.283 + ?x" by (simp add: kTwoPi_def)
  have v2: "vibratoPhase (update_oscillators (1 / 48000) ?p (gSynth\<lparr>vibratoPhase := 6.283\<rparr>))
       = 6.283 + ?x - kTwoPi"
    using t2 [THEN conjunct2, THEN conjunct1] w by (simp add: Let_def)
  have ok: "delay_ok (audio_thread_init 48000 gSynth)"
    by (simp add: delay_ok_def audio_thread_init_def delaySamples_48000)
  have run: "\<exists>st' seed' frames k.
        render_frames (1 / 48000) (\<lambda>j. ?p) 0 3
          (audio_thread_init 48000 gSynth, noise_seed0) = Inr ((st', seed'), frames)
        \<and> k \<le> 3
        \<and> vibratoPhase st'
            = vibratoPhase (audio_thread_init 48000 gSynth)
              + real 3 * (kTwoPi * 5.5 * (1 / 48000)) - real k * kTwoPi"
    by (rule mp [OF t3 [THEN conjunct2, THEN conjunct2] ok])
  show ?thesis
    by (intro conjI) (rule h v1 c1 c2 pb v2 ok run)+
qed

subsection \<open>Phase wraparound\<close>

lemma wrap_phase_range:
  assumes "0 \<le> ph" and "ph < kTwoPi" and "0 \<le> inc" and "inc < kTwoPi"
  shows "0 \<le> wrap_phase (ph + inc) \<and> wrap_phase (ph + inc) < kTwoPi"
  using assms by (simp add: wrap_phase_def)

lemma turn_scaled:
  assumes "0 \<le> x" and "x < 1"
  shows "0 \<le> kTwoPi * x \<and> kTwoPi * x < kTwoPi"
proof -
  have "kTwoPi * x < kTwoPi * 1"
    using assms(2) kTwoPi_pos by (rule mult_strict_left_mono)
  moreover have "0 \<le> kTwoPi * x"
    using kTwoPi_pos assms(1) by (intro mult_nonneg_nonneg) simp_all
  ultimately show ?thesis by simp
qed

lemma increments_in_range:
  assumes h: "kMinHz \<le> next_smoothHz p st" "next_smoothHz p st \<le> kMaxHz"
    and d: "0 \<le> vibratoDepth p" "vibratoDepth p \<le> 1"
    and dt: "0 \<le> dt" "dt \<le> 1 / kSampleRate"
  shows "0 \<le> vibrato_inc dt \<and> vibrato_inc dt < kTwoPi
    \<and> 0 \<le> incA dt p st \<and> incA dt p st < kTwoPi
    \<and> 0 \<le> incB dt p st \<and> incB dt p st < kTwoPi"
proof -
  define hz where "hz = carrier_hz dt p st"
  have v: "\<bar>vibrato dt p st\<bar> \<le> 0.01" by (rule vibrato_abs_le [OF d])
  have v0: "0 \<le> 1 + vibrato dt p st" using v by (simp; argo)
  have v1: "1 + vibrato dt p st \<le> 1.01" using v by (simp; argo)
  have h0: "0 \<le> next_smoothHz p st" using h(1) by (simp add: kMinHz_def)
  have hz0: "0 \<le> hz"
    unfolding hz_def carrier_hz_def by (rule mult_nonneg_nonneg [OF h0 v0])
  have "hz \<le> kMaxHz * 1.01"
    unfolding hz_def carrier_hz_def by (rule mult_mono [OF h(2) v1 _ v0]) (simp add: kMaxHz_def)
  then have hz1: "hz \<le> 2020" by (simp add: kMaxHz_def)
  have dt1: "dt \<le> 1 / 48000" using dt(2) by (simp add: kSampleRate_def)
  have x0: "0 \<le> hz * dt" by (rule mult_nonneg_nonneg [OF hz0 dt(1)])
  have "hz * dt \<le> 2020 * (1 / 48000)"
    by (rule mult_mono [OF hz1 dt1 _ dt(1)]) simp
  then have x1: "hz * dt \<le> 2020 / 48000" by simp
  have a: "incA dt p st = kTwoPi * (hz * dt)" by (simp add: incA_def hz_def)
  have b: "incB dt p st = kTwoPi * (1.997 * (hz * dt))" by (simp add: incB_def hz_def)
  have c: "vibrato_inc dt = kTwoPi * (5.5 * dt)" by (simp add: vibrato_inc_def)
  have ra: "0 \<le> hz * dt \<and> hz * dt < 1" using x0 x1 by (simp; argo)
  have rb: "0 \<le> 1.997 * (hz * dt) \<and> 1.997 * (hz * dt) < 1" using x0 x1 by (simp; argo)
  have rc: "0 \<le> 5.5 * dt \<and> 5.5 * dt < 1" using dt(1) dt1 by (simp; argo)
  show ?thesis
    unfolding a b c
    using turn_scaled [of "hz * dt"] turn_scaled [of "1.997 * (hz * dt)"]
      turn_scaled [of "5.5 * dt"] ra rb rc by blast
qed

lemma update_oscillators_phases:
  assumes "phases_in_range st"
    and "0 \<le> vibrato_inc dt" "vibrato_inc dt < kTwoPi"
    and "0 \<le> incA dt p st" "incA dt p st < kTwoPi"
    and "0 \<le> incB dt p st" "incB dt p st < kTwoPi"
  shows "phases_in_range (update_oscillators dt p st)"
proof -
  have r: "0 \<le> phaseA st" "phaseA st < kTwoPi" "0 \<le> phaseB st" "phaseB st < kTwoPi"
    "0 \<le> vibratoPhase st" "vibratoPhase st < kTwoPi"
    using assms(1) by (simp_all add: phases_in_range_def)
  show ?thesis
    unfolding phases_in_range_def update_oscillators_fields next_vibratoPhase_def
    using wrap_phase_range [OF r(1,2) assms(4,5)] wrap_phase_range [OF r(3,4) assms(6,7)]
      wrap_phase_range [OF r(5,6) assms(2,3)]
    by blast
qed

lemma next_smoothHz_range:
  assumes "kMinHz \<le> smoothHz st" "smoothHz st \<le> kMaxHz"
    and "kMinHz \<le> targetHz p" "targetHz p \<le> kMaxHz"
  shows "kMinHz \<le> next_smoothHz p st \<and> next_smoothHz p st \<le> kMaxHz"
proof -
  have k: "0 < hzSmoothCoeff" "hzSmoothCoeff < 1" by (simp_all add: hzSmoothCoeff_def)
  show ?thesis
    unfolding next_smoothHz_def
    using smooth_step_between [OF k, of "smoothHz st" "targetHz p"] assms by linarith
qed

lemma update_oscillators_osc_ok:
  assumes "osc_ok st" and "targets_valid p" and "0 \<le> dt" and "dt \<le> 1 / kSampleRate"
  shows "osc_ok (update_oscillators dt p st)"
proof -
  have s: "kMinHz \<le> smoothHz st" "smoothHz st \<le> kMaxHz" and ph: "phases_in_range st"
    using assms(1) by (simp_all add: osc_ok_def)
  have t: "kMinHz \<le> targetHz p" "targetHz p \<le> kMaxHz"
    and d: "0 \<le> vibratoDepth p" "vibratoDepth p \<le> 1"
    using assms(2) by (simp_all add: targets_valid_def)
  have n: "kMinHz \<le> next_smoothHz p st" "next_smoothHz p st \<le> kMaxHz"
    using next_smoothHz_range [OF s t] by simp_all
  have i: "0 \<le> vibrato_inc dt" "vibrato_inc dt < kTwoPi"
    "0 \<le> incA dt p st" "incA dt p st < kTwoPi"
    "0 \<le> incB dt p st" "incB dt p st < kTwoPi"
    using increments_in_range [OF n d assms(3,4)] by simp_all
  show ?thesis
    unfolding osc_ok_def
    using update_oscillators_phases [OF ph i] n by (simp add: update_oscillators_fields)
qed

lemma render_frames_osc_ok:
  assumes "osc_ok st" and "delay_ok st" and "\<And>j. targets_valid (ps j)"
    and "0 \<le> dt" and "dt \<le> 1 / kSampleRate"
  shows "\<exists>st' seed' frames.
     render_frames dt ps i n (st, seed) = Inr ((st', seed'), frames)
     \<and> osc_ok st' \<and> delay_ok st'"
  using assms(1,2)
proof (induction n arbitrary: i st seed)
  case 0
  then show ?case by simp
next
  case (Suc n)
  obtain st1 seed1 outL outR where
    s1: "render_sample dt (ps i) (st, seed) = Inr ((st1, seed1), outL, outR)"
    and ok1: "delay_ok st1"
    and f: "smoothHz st1 = next_smoothHz (ps i) st"
      "vibratoPhase st1 = vibratoPhase (update_oscillators dt (ps i) st)"
      "phaseA st1 = phaseA (update_oscillators dt (ps i) st)"
      "phaseB st1 = phaseB (update_oscillators dt (ps i) st)"
    using render_sample_total [OF Suc.prems(2), of dt "ps i" seed] by blast
  have "osc_ok (update_oscillators dt (ps i) st)"
    by (rule update_oscillators_osc_ok [OF Suc.prems(1) assms(3) assms(4,5)])
  then have o1: "osc_ok st1"
    by (simp add: osc_ok_def phases_in_range_def f update_oscillators_fields)
  obtain st2 seed2 frames where
    s2: "render_frames dt ps (Suc i) n (st1, seed1) = Inr ((st2, seed2), frames)"
    and o2: "osc_ok st2" and ok2: "delay_ok st2"
    using Suc.IH [OF o1 ok1, of "Suc i" seed1] by blast
  have "render_frames dt ps i (Suc n) (st, seed) = Inr ((st2, seed2), (outL, outR) # frames)"
    by (simp add: s1 s2)
  then show ?case using o2 ok2 by blast
qed

text \<open>
  C4. One turn is the program's constant \<open>kTwoPi\<close>. In every per-sample update, if the
  carrier, modulator and vibrato phases are in \<open>[0, kTwoPi)\<close> and the three per-sample
  increments are nonnegative and below \<open>kTwoPi\<close>, then after the update's single
  conditional subtraction the three phases are in \<open>[0, kTwoPi)\<close> again. The increments
  are in that range when the smoothed frequency is within \<open>[100, 2000]\<close>, the vibrato
  depth within \<open>[0, 1]\<close> and the time step is that of 48 kHz (or shorter). With targets
  in those ranges and a smoothed frequency that starts within \<open>[100, 2000]\<close>, the phases
  are therefore in \<open>[0, kTwoPi)\<close> after any number of frames.
\<close>

theorem phase_wraparound_invariant:
  "(phases_in_range st
      \<and> 0 \<le> vibrato_inc dt \<and> vibrato_inc dt < kTwoPi
      \<and> 0 \<le> incA dt p st \<and> incA dt p st < kTwoPi
      \<and> 0 \<le> incB dt p st \<and> incB dt p st < kTwoPi
      \<longrightarrow> phases_in_range (update_oscillators dt p st))
   \<and> (kMinHz \<le> next_smoothHz p st \<and> next_smoothHz p st \<le> kMaxHz
      \<and> 0 \<le> vibratoDepth p \<and> vibratoDepth p \<le> 1
      \<and> 0 \<le> dt \<and> dt \<le> 1 / kSampleRate
      \<longrightarrow> 0 \<le> vibrato_inc dt \<and> vibrato_inc dt < kTwoPi
        \<and> 0 \<le> incA dt p st \<and> incA dt p st < kTwoPi
        \<and> 0 \<le> incB dt p st \<and> incB dt p st < kTwoPi)
   \<and> (osc_ok st \<and> delay_ok st \<and> (\<forall>j. targets_valid (ps j))
      \<and> 0 \<le> dt \<and> dt \<le> 1 / kSampleRate
      \<longrightarrow> (\<exists>st' seed' frames.
            render_frames dt ps i n (st, seed) = Inr ((st', seed'), frames)
            \<and> phases_in_range st'))"
proof (intro conjI impI)
  assume "phases_in_range st
      \<and> 0 \<le> vibrato_inc dt \<and> vibrato_inc dt < kTwoPi
      \<and> 0 \<le> incA dt p st \<and> incA dt p st < kTwoPi
      \<and> 0 \<le> incB dt p st \<and> incB dt p st < kTwoPi"
  then show "phases_in_range (update_oscillators dt p st)"
    using update_oscillators_phases [of st dt p] by blast
next
  assume a: "kMinHz \<le> next_smoothHz p st \<and> next_smoothHz p st \<le> kMaxHz
      \<and> 0 \<le> vibratoDepth p \<and> vibratoDepth p \<le> 1
      \<and> 0 \<le> dt \<and> dt \<le> 1 / kSampleRate"
  note r = increments_in_range [of p st dt]
  show "0 \<le> vibrato_inc dt" "vibrato_inc dt < kTwoPi"
    "0 \<le> incA dt p st" "incA dt p st < kTwoPi"
    "0 \<le> incB dt p st" "incB dt p st < kTwoPi"
    using r a by blast+
next
  assume a: "osc_ok st \<and> delay_ok st \<and> (\<forall>j. targets_valid (ps j))
      \<and> 0 \<le> dt \<and> dt \<le> 1 / kSampleRate"
  then obtain st' seed' frames where
    "render_frames dt ps i n (st, seed) = Inr ((st', seed'), frames)" "osc_ok st'"
    using render_frames_osc_ok [of st ps dt i n seed] by blast
  then show "\<exists>st' seed' frames.
            render_frames dt ps i n (st, seed) = Inr ((st', seed'), frames)
            \<and> phases_in_range st'"
    unfolding osc_ok_def by blast
qed


theorem phase_wraparound_invariant_witness:
  "phases_in_range (audio_thread_init 48000 gSynth)
   \<and> kMinHz \<le> next_smoothHz gParams (audio_thread_init 48000 gSynth)
   \<and> next_smoothHz gParams (audio_thread_init 48000 gSynth) \<le> kMaxHz
   \<and> 0 \<le> vibratoDepth gParams \<and> vibratoDepth gParams \<le> 1
   \<and> (0::real) \<le> 1 / 48000 \<and> (1 / 48000 :: real) \<le> 1 / kSampleRate
   \<and> 0 \<le> incB (1 / 48000) gParams (audio_thread_init 48000 gSynth)
   \<and> incB (1 / 48000) gParams (audio_thread_init 48000 gSynth) < kTwoPi
   \<and> phases_in_range (update_oscillators (1 / 48000) gParams (audio_thread_init 48000 gSynth))
   \<and> osc_ok (audio_thread_init 48000 gSynth) \<and> delay_ok (audio_thread_init 48000 gSynth)
   \<and> (\<forall>j. targets_valid ((\<lambda>j. gParams) j))
   \<and> (\<exists>st' seed' frames.
         render_frames (1 / 48000) (\<lambda>j. gParams) 0 3 (audio_thread_init 48000 gSynth, noise_seed0)
           = Inr ((st', seed'), frames)
         \<and> phases_in_range st')"
proof -
  let ?st = "audio_thread_init 48000 gSynth"
  note t = phase_wraparound_invariant
    [of ?st "1 / 48000" gParams "\<lambda>j. gParams" 0 3 noise_seed0]
  have ph: "phases_in_range ?st"
    by (simp add: phases_in_range_def audio_thread_init_def gSynth_def kTwoPi_def)
  have n: "kMinHz \<le> next_smoothHz gParams ?st" "next_smoothHz gParams ?st \<le> kMaxHz"
    by (simp_all add: next_smoothHz_def smooth_step_def audio_thread_init_def gSynth_def
        gParams_def kMinHz_def kMaxHz_def)
  have d: "0 \<le> vibratoDepth gParams" "vibratoDepth gParams \<le> 1"
    by (simp_all add: gParams_def)
  have dt: "(0::real) \<le> 1 / 48000" "(1 / 48000 :: real) \<le> 1 / kSampleRate"
    by (simp_all add: kSampleRate_def)
  have inc: "0 \<le> vibrato_inc (1 / 48000) \<and> vibrato_inc (1 / 48000) < kTwoPi
        \<and> 0 \<le> incA (1 / 48000) gParams ?st \<and> incA (1 / 48000) gParams ?st < kTwoPi
        \<and> 0 \<le> incB (1 / 48000) gParams ?st \<and> incB (1 / 48000) gParams ?st < kTwoPi"
    using t [THEN conjunct2, THEN conjunct1] n d dt by blast
  have up: "phases_in_range (update_oscillators (1 / 48000) gParams ?st)"
    using t [THEN conjunct1] ph inc by blast
  have o: "osc_ok ?st"
    using ph by (simp add: osc_ok_def audio_thread_init_def gSynth_def kMinHz_def kMaxHz_def)
  have dl: "delay_ok ?st"
    by (simp add: delay_ok_def audio_thread_init_def delaySamples_48000)
  have tv: "\<forall>j. targets_valid ((\<lambda>j. gParams) j)"
    by (simp add: targets_valid_def gParams_def kMinHz_def kMaxHz_def)
  have run: "\<exists>st' seed' frames.
         render_frames (1 / 48000) (\<lambda>j. gParams) 0 3 (?st, noise_seed0)
           = Inr ((st', seed'), frames)
         \<and> phases_in_range st'"
    using t [THEN conjunct2, THEN conjunct2] o dl tv dt by blast
  show ?thesis
    using ph n d dt inc up o dl tv run by blast
qed

subsection \<open>The mode table\<close>

lemma white_noise_seed0: "white_noise noise_seed0 = (- (3987593 / 8388608), 1967335287)"
  by (simp add: white_noise_def noise_seed0_def Let_def)

lemma white_noise_seed1: "white_noise 1967335287 = (- (2609355 / 4194304), 3442499178)"
  by (simp add: white_noise_def Let_def)

text \<open>
  C5 as stated fails: in mode 3 the sample is not a function of the two phases and the
  mode alone. Two successive mode-3 samples at the same phases (both 0) differ, because
  the first call advances the noise seed from \<open>0x12345678\<close> to \<open>1967335287\<close>.
\<close>

theorem waveform_mode3_seed_counterexample:
  "snd (waveform 3 0 0 noise_seed0) = 1967335287
   \<and> fst (waveform 3 0 0 noise_seed0)
       = - (121283432164404021445721 / 1024833070685925459099648)
   \<and> fst (waveform 3 0 0 1967335287)
       = - (735126152774971098505 / 4760443680497908842496)
   \<and> fst (waveform 3 0 0 noise_seed0) \<noteq> fst (waveform 3 0 0 1967335287)"
  by (simp add: waveform_mode3 white_noise_seed0 white_noise_seed1 sine_def fast_tanhf_def
      Let_def)

text \<open>
  C5, amended. The sample is a function of the carrier phase, the modulator phase, the
  mode and, in mode 3 only, the noise seed. Mode 1 gives \<open>sin carrier\<close>; mode 2 gives
  \<open>0.70 * sin carrier + 0.45 * sin carrier * sin modulator\<close>; mode 3 gives
  \<open>x * (27 + x\<^sup>2) / (27 + 9 * x\<^sup>2)\<close> for \<open>x = 0.85 * sin carrier + 0.25 * noise\<close>, where
  \<open>noise\<close> is the value \<open>white_noise\<close> draws from the current seed, and advances the
  seed once; mode 4 gives \<open>0.6 * soft_saw carrier + 0.4 * soft_tri carrier\<close>; every
  other mode value gives \<open>sin carrier\<close>. In the modes other than 3 the sample does not
  depend on the seed and the seed is left as it is. The function is total.
\<close>

theorem waveform_mode_table:
  "waveform 1 a b s = (sin a, s)
   \<and> waveform 2 a b s = (0.70 * sin a + 0.45 * sin a * sin b, s)
   \<and> waveform 3 a b s =
       (let x = 0.85 * sin a + 0.25 * fst (white_noise s)
        in x * (27 + x\<^sup>2) / (27 + 9 * x\<^sup>2),
        snd (white_noise s))
   \<and> waveform 4 a b s = (0.6 * soft_saw a + 0.4 * soft_tri a, s)
   \<and> (m \<notin> {1, 2, 3, 4} \<longrightarrow> waveform m a b s = (sin a, s))
   \<and> (m \<noteq> 3 \<longrightarrow> waveform m a b s' = (fst (waveform m a b s), s'))"
proof -
  have c3: "waveform 3 a b s =
       (let x = 0.85 * sin a + 0.25 * fst (white_noise s)
        in x * (27 + x\<^sup>2) / (27 + 9 * x\<^sup>2),
        snd (white_noise s))"
    by (simp add: waveform_mode3 fast_tanhf_def sine_def Let_def power2_eq_square)
  have c6: "m \<noteq> 3 \<longrightarrow> waveform m a b s' = (fst (waveform m a b s), s')"
    by (simp add: waveform_def Let_def)
  show ?thesis
    using c3 c6 waveform_default [of m a b s]
    by (simp add: waveform_mode1 waveform_mode2 waveform_mode4 sine_def)
qed

theorem waveform_mode_table_witness:
  "(7::int) \<notin> {1, 2, 3, 4} \<and> waveform 7 0 0 noise_seed0 = (0, noise_seed0)
   \<and> (2::int) \<noteq> 3 \<and> waveform 2 0 0 1967335287 = (fst (waveform 2 0 0 noise_seed0), 1967335287)"
  using waveform_mode_table [of 0 0 noise_seed0 7 1967335287]
    waveform_mode_table [of 0 0 noise_seed0 2 1967335287]
  by simp

end
